theory Spec2Isabelle
  imports Complex_Main "HOL-Library.Sublist"
begin

section \<open>Exceptions, requests and the remote service\<close>

text \<open>
  The exceptions the modelled code raises or lets through. Every constructor carries the
  text that \<^verbatim>\<open>str(e)\<close> yields; \<open>HttpError\<close> also carries \<^verbatim>\<open>error.resp.status\<close>.
\<close>

datatype exn =
    HttpError int string
  | ValueError string
  | KeyError string
  | AttributeError string
  | TypeError string

text \<open>An entry of a listing, with the fields the code asks for: \<^verbatim>\<open>files(id, name, mimeType)\<close>.\<close>

record item =
  f_id :: string
  f_name :: string
  f_mimeType :: string

text \<open>
  The dictionary a request returns. A key may be absent: \<^verbatim>\<open>d['k']\<close> then raises
  \<^verbatim>\<open>KeyError\<close> and \<^verbatim>\<open>d.get('k')\<close> yields \<^verbatim>\<open>None\<close>.
\<close>

record response =
  r_id :: "string option"
  r_name :: "string option"
  r_mimeType :: "string option"
  r_files :: "item list option"
  r_nextPageToken :: "string option"

text \<open>
  The request objects built from \<^verbatim>\<open>self.service.files()\<close>:
  \<^verbatim>\<open>get(fileId)\<close>, \<^verbatim>\<open>copy(fileId, body)\<close> with the optional parent and name of the body,
  \<^verbatim>\<open>create(body)\<close> with the name and the optional parent, \<^verbatim>\<open>list(q, pageSize, pageToken)\<close>,
  \<^verbatim>\<open>update(fileId, body)\<close> with the new name, and \<^verbatim>\<open>delete(fileId)\<close>.
\<close>

datatype request =
    FilesGet string
  | FilesCopy string "string option" "string option"
  | FilesCreate string "string option"
  | FilesList string "int option" "string option"
  | FilesUpdate string string
  | FilesDelete string

text \<open>
  What the program does to the outside world, in order: the requests it executes and the
  calls of \<^verbatim>\<open>time.sleep\<close> with their argument. The state of the model is this trace.
  Logger output is not modelled.
\<close>

datatype event = Call request | Sleep real

type_synonym st = "event list"

fun requests :: "st \<Rightarrow> request list" where
  "requests [] = []"
| "requests (Call r # t) = r # requests t"
| "requests (Sleep d # t) = requests t"

fun sleeps :: "st \<Rightarrow> real list" where
  "sleeps [] = []"
| "sleeps (Call r # t) = sleeps t"
| "sleeps (Sleep d # t) = d # sleeps t"

text \<open>
  The configuration of a \<^verbatim>\<open>DriveManager\<close> and its collaborators.

  Modelled from the spec: the remote store (the Drive client library is not part of the
  repository). Section 6 of the specification gives every call the result type
  \<open>Result<T, RemoteError{statusCode, message}>\<close>; here \<open>remote E h r\<close> is the outcome of
  executing request \<open>r\<close> after the requests \<open>h\<close> were executed: a status code with a message, raised as
  \<^verbatim>\<open>HttpError\<close>, or the returned dictionary. Nothing is assumed about the function, so it
  stands for any behaviour of the store, also one that changes from call to call.

  \<open>re_other\<close> is the answer of Python's \<^verbatim>\<open>re.match\<close> on the patterns outside the fragment of
  the regular-expression syntax modelled below: \<open>None\<close> for \<^verbatim>\<open>re.error\<close>, otherwise whether
  there is a match. \<open>host_error\<close> is the check that \<^verbatim>\<open>urlparse\<close> makes of a bracketed
  host: \<open>None\<close> when the host is accepted, otherwise the message of the \<^verbatim>\<open>ValueError\<close>.
  Both are parameters as well.
\<close>

record env =
  remote :: "request list \<Rightarrow> request \<Rightarrow> (int \<times> string) + response"
  batch_size :: int
  max_retries :: int
  retry_delay :: real
  re_other :: "string \<Rightarrow> string \<Rightarrow> bool option"
  host_error :: "string \<Rightarrow> string option"

text \<open>\<^verbatim>\<open>request.execute()\<close>: one call of the remote store, recorded in the state.\<close>

definition execute :: "env \<Rightarrow> request \<Rightarrow> st \<Rightarrow> (exn + response) \<times> st" where
  "execute E req s =
     ((case remote E (requests s) req of
         Inl (status, msg) \<Rightarrow> Inl (HttpError status msg)
       | Inr r \<Rightarrow> Inr r),
      s @ [Call req])"

text \<open>\<^verbatim>\<open>time.sleep(t)\<close>, which raises \<^verbatim>\<open>ValueError\<close> on a negative argument.\<close>

definition sleep :: "real \<Rightarrow> st \<Rightarrow> (exn + unit) \<times> st" where
  "sleep t s =
     (if t < 0 then (Inl (ValueError ''sleep length must be non-negative''), s)
      else (Inr (), s @ [Sleep t]))"

section \<open>The retrying executor\<close>

text \<open>
  The handler \<^verbatim>\<open>except HttpError as error\<close> with its test
  \<^verbatim>\<open>error.resp.status in [429, 500, 503]\<close>.
\<close>

fun retryable :: "exn \<Rightarrow> bool" where
  "retryable (HttpError status msg) = (status = 429 \<or> status = 500 \<or> status = 503)"
| "retryable _ = False"

text \<open>
  The loop of \<^verbatim>\<open>_execute_with_retry\<close>, from a value of \<^verbatim>\<open>retry_count\<close>. When the loop
  condition fails the Python function falls off its end and returns \<^verbatim>\<open>None\<close>: the
  result is \<open>Inr None\<close>.
\<close>

function retry_loop :: "env \<Rightarrow> request \<Rightarrow> int \<Rightarrow> st \<Rightarrow> (exn + response option) \<times> st" where
  "retry_loop E req retry_count s =
     (if retry_count < max_retries E then
        (case execute E req s of
           (Inr r, s1) \<Rightarrow> (Inr (Some r), s1)
         | (Inl e, s1) \<Rightarrow>
             if retryable e then
               (if retry_count + 1 = max_retries E then (Inl e, s1)
                else
                  (case sleep (2 ^ nat (retry_count + 1) * retry_delay E) s1 of
                     (Inl e', s2) \<Rightarrow> (Inl e', s2)
                   | (Inr _, s2) \<Rightarrow> retry_loop E req (retry_count + 1) s2))
             else (Inl e, s1))
      else (Inr None, s))"
  by pat_completeness auto
termination
  by (relation "measure (\<lambda>(E, req, retry_count, s). nat (max_retries E - retry_count))") auto

definition execute_with_retry :: "env \<Rightarrow> request \<Rightarrow> st \<Rightarrow> (exn + response option) \<times> st" where
  "execute_with_retry E req s = retry_loop E req 0 s"

text \<open>
  \<^verbatim>\<open>get_file_metadata\<close>: the handler logs the error and raises it again, so the outcome is
  that of the request.
\<close>

definition get_file_metadata :: "env \<Rightarrow> string \<Rightarrow> st \<Rightarrow> (exn + response option) \<times> st" where
  "get_file_metadata E file_id s = execute_with_retry E (FilesGet file_id) s"

text \<open>
  The trace of a run of the retry loop that makes \<open>n\<close> attempts starting from the retry
  count \<open>k\<close>, as the specification describes it: the attempts, with a sleep of
  \<open>2 ^ j * d\<close> seconds between the attempt that brings the count to \<open>j\<close> and the next one,
  and no sleep after the last attempt.
\<close>

fun retry_trace :: "request \<Rightarrow> real \<Rightarrow> nat \<Rightarrow> nat \<Rightarrow> event list" where
  "retry_trace req d k 0 = []"
| "retry_trace req d k (Suc 0) = [Call req]"
| "retry_trace req d k (Suc (Suc n)) =
     Call req # Sleep (2 ^ Suc k * d) # retry_trace req d (Suc k) (Suc n)"

section \<open>Strings and the library functions on them\<close>

text \<open>
  Strings are lists of 8-bit characters. The functions of the Python library that the code
  calls (\<^verbatim>\<open>urlparse\<close>, \<^verbatim>\<open>parse_qs\<close>, \<^verbatim>\<open>re\<close>, \<^verbatim>\<open>fnmatch\<close>, \<^verbatim>\<open>os.path.splitext\<close>) are
  modelled after CPython 3.11 on a POSIX system, and agree with it on ASCII text; a
  character beyond ASCII is read as one character per byte.
\<close>

definition between :: "char \<Rightarrow> char \<Rightarrow> char \<Rightarrow> bool" where
  "between lo hi c = ((of_char lo :: nat) \<le> of_char c \<and> (of_char c :: nat) \<le> of_char hi)"

definition is_digit :: "char \<Rightarrow> bool" where
  "is_digit c = between (CHR ''0'') (CHR ''9'') c"

definition is_upper :: "char \<Rightarrow> bool" where
  "is_upper c = between (CHR ''A'') (CHR ''Z'') c"

definition is_alpha :: "char \<Rightarrow> bool" where
  "is_alpha c = (between (CHR ''a'') (CHR ''z'') c \<or> is_upper c)"

definition to_lower :: "char \<Rightarrow> char" where
  "to_lower c = (if is_upper c then char_of ((of_char c :: nat) + 32) else c)"

text \<open>\<^verbatim>\<open>s.partition(c)\<close>: the text before the first \<open>c\<close> and the text after it.\<close>

definition before :: "char \<Rightarrow> string \<Rightarrow> string" where
  "before c s = takeWhile (\<lambda>x. x \<noteq> c) s"

definition after :: "char \<Rightarrow> string \<Rightarrow> string" where
  "after c s = drop 1 (dropWhile (\<lambda>x. x \<noteq> c) s)"

text \<open>The text after the last \<open>c\<close>, the whole string when there is none.\<close>

definition last_part :: "char \<Rightarrow> string \<Rightarrow> string" where
  "last_part c s = rev (before c (rev s))"

fun split_on :: "char \<Rightarrow> string \<Rightarrow> string list" where
  "split_on c [] = [[]]"
| "split_on c (x # xs) =
     (if x = c then [] # split_on c xs
      else (case split_on c xs of [] \<Rightarrow> [[x]] | w # ws \<Rightarrow> (x # w) # ws))"

subsection \<open>\<^verbatim>\<open>urllib.parse\<close>\<close>

record parsed_url =
  scheme :: string
  netloc :: string
  path :: string
  params :: string
  query :: string
  fragment :: string

definition scheme_char :: "char \<Rightarrow> bool" where
  "scheme_char c = (is_alpha c \<or> is_digit c \<or> c = CHR ''+'' \<or> c = CHR ''-'' \<or> c = CHR ''.'')"

definition uses_params :: "string list" where
  "uses_params = ['''', ''ftp'', ''hdl'', ''prospero'', ''http'', ''imap'', ''https'', ''shttp'',
     ''rtsp'', ''rtsps'', ''rtspu'', ''sip'', ''sips'', ''mms'', ''sftp'', ''tel'']"

definition split_scheme :: "string \<Rightarrow> string \<times> string" where
  "split_scheme url =
     (let s = before (CHR '':'') url in
      if CHR '':'' \<in> set url \<and> s \<noteq> [] \<and> is_alpha (hd s) \<and> list_all scheme_char s
      then (map to_lower s, after (CHR '':'') url) else ([], url))"

definition netloc_end :: "char \<Rightarrow> bool" where
  "netloc_end c = (c = CHR ''/'' \<or> c = CHR ''?'' \<or> c = CHR ''#'')"

definition split_netloc :: "string \<Rightarrow> string \<times> string" where
  "split_netloc url =
     (if take 2 url = ''//''
      then (takeWhile (\<lambda>c. \<not> netloc_end c) (drop 2 url),
            dropWhile (\<lambda>c. \<not> netloc_end c) (drop 2 url))
      else ([], url))"

definition splitparams :: "string \<Rightarrow> string \<times> string" where
  "splitparams url =
     (let seg = last_part (CHR ''/'') url in
      if CHR '';'' \<in> set seg
      then (take (length url - length seg) url @ before (CHR '';'') seg, after (CHR '';'') seg)
      else (url, []))"

text \<open>
  \<^verbatim>\<open>urlparse(url)\<close>. Leading control characters and blanks are stripped, tabs and line ends
  removed; then the scheme, the authority after \<^verbatim>\<open>//\<close>, the fragment, the query and the
  parameters of the last path segment are split off. Brackets in the authority that do
  not pair raise \<^verbatim>\<open>ValueError\<close>; a bracketed host is validated by \<open>host_error\<close>.
\<close>

definition urlparse :: "env \<Rightarrow> string \<Rightarrow> exn + parsed_url" where
  "urlparse E url0 =
     (let url1 = filter (\<lambda>c. c \<noteq> CHR 0x09 \<and> c \<noteq> CHR 0x0A \<and> c \<noteq> CHR 0x0D)
                   (dropWhile (\<lambda>c. (of_char c :: nat) \<le> 32) url0);
          (sch, url2) = split_scheme url1;
          (loc, url3) = split_netloc url2
      in if (CHR ''['' \<in> set loc) \<noteq> (CHR '']'' \<in> set loc)
         then Inl (ValueError ''Invalid IPv6 URL'')
         else
           (case (if CHR ''['' \<in> set loc
                  then host_error E (before (CHR '']'') (after (CHR ''['') loc)) else None) of
              Some msg \<Rightarrow> Inl (ValueError msg)
            | None \<Rightarrow>
                (let url4 = before (CHR ''#'') url3;
                     url5 = before (CHR ''?'') url4;
                     (p, ps) = (if sch \<in> set uses_params \<and> CHR '';'' \<in> set url5
                                then splitparams url5 else (url5, []))
                 in Inr \<lparr>scheme = sch, netloc = loc, path = p, params = ps,
                          query = after (CHR ''?'') url4, fragment = after (CHR ''#'') url3\<rparr>)))"

definition hex_val :: "char \<Rightarrow> nat option" where
  "hex_val c =
     (if is_digit c then Some (of_char c - 48)
      else if between (CHR ''a'') (CHR ''f'') c then Some (of_char c - 87)
      else if between (CHR ''A'') (CHR ''F'') c then Some (of_char c - 55)
      else None)"

text \<open>\<^verbatim>\<open>unquote\<close>: an escape \<^verbatim>\<open>%XX\<close> with two hexadecimal digits is replaced by its byte.\<close>

fun unquote :: "string \<Rightarrow> string" where
  "unquote [] = []"
| "unquote [c] = [c]"
| "unquote [c, d] = [c, d]"
| "unquote (c # a # b # cs) =
     (case (if c = CHR ''%'' then hex_val a else None, hex_val b) of
        (Some x, Some y) \<Rightarrow> char_of (16 * x + y) # unquote cs
      | _ \<Rightarrow> c # unquote (a # b # cs))"

definition plus_to_space :: "string \<Rightarrow> string" where
  "plus_to_space s = map (\<lambda>c. if c = CHR ''+'' then CHR '' '' else c) s"

text \<open>
  \<^verbatim>\<open>parse_qsl(query)\<close>, which \<^verbatim>\<open>parse_qs\<close> collects into a dictionary: the fields between
  \<^verbatim>\<open>&\<close>, each split at its first \<^verbatim>\<open>=\<close>; a field with an empty value is dropped.
  \<^verbatim>\<open>query_params['id'][0]\<close> is the value of the first pair named \<^verbatim>\<open>id\<close>.
\<close>

definition parse_qsl :: "string \<Rightarrow> (string \<times> string) list" where
  "parse_qsl q =
     map (\<lambda>f. (unquote (plus_to_space (before (CHR ''='') f)),
                unquote (plus_to_space (after (CHR ''='') f))))
       (filter (\<lambda>f. after (CHR ''='') f \<noteq> []) (split_on (CHR ''&'') q))"

subsection \<open>\<^verbatim>\<open>extract_file_id_from_url\<close>\<close>

definition id_char :: "char \<Rightarrow> bool" where
  "id_char c = (is_alpha c \<or> is_digit c \<or> c = CHR ''_'' \<or> c = CHR ''-'')"

text \<open>
  \<^verbatim>\<open>re.search(lit + '([a-zA-Z0-9_-]+)', s)\<close> and its group 1: the leftmost place where the
  literal text is followed by a character of the class, and the longest run of such
  characters there.
\<close>

fun re_search_id :: "string \<Rightarrow> string \<Rightarrow> string option" where
  "re_search_id lit [] = None"
| "re_search_id lit (c # cs) =
     (if prefix lit (c # cs) \<and> takeWhile id_char (drop (length lit) (c # cs)) \<noteq> []
      then Some (takeWhile id_char (drop (length lit) (c # cs)))
      else re_search_id lit cs)"

text \<open>The list \<^verbatim>\<open>patterns\<close> of the source, in its order, each without its group.\<close>

definition patterns :: "string list" where
  "patterns = [''/file/d/'', ''/folders/'', ''id='', ''/drive/'']"

text \<open>The loop \<^verbatim>\<open>for pattern in patterns\<close>, which returns at the first match.\<close>

fun first_match :: "string list \<Rightarrow> string \<Rightarrow> string option" where
  "first_match [] s = None"
| "first_match (p # ps) s =
     (case re_search_id p s of Some m \<Rightarrow> Some m | None \<Rightarrow> first_match ps s)"

definition extract_file_id_from_url :: "env \<Rightarrow> string \<Rightarrow> exn + string option" where
  "extract_file_id_from_url E url =
     (case urlparse E url of
        Inl e \<Rightarrow> Inl e
      | Inr parsed_url \<Rightarrow>
          Inr (case first_match patterns (path parsed_url) of
                 Some m \<Rightarrow> Some m
               | None \<Rightarrow> map_of (parse_qsl (query parsed_url)) ''id''))"

text \<open>
  The order in which the specification lists the patterns: file, folder, generic drive
  segment, and the form \<^verbatim>\<open>id=\<close> last.
\<close>

definition patterns_as_specified :: "string list" where
  "patterns_as_specified = [''/file/d/'', ''/folders/'', ''/drive/'', ''id='']"

text \<open>
  The function as the specification words it: the same steps with the patterns in the
  order above.
\<close>

definition extract_as_specified :: "env \<Rightarrow> string \<Rightarrow> exn + string option" where
  "extract_as_specified E url =
     (case urlparse E url of
        Inl e \<Rightarrow> Inl e
      | Inr parsed_url \<Rightarrow>
          Inr (case first_match patterns_as_specified (path parsed_url) of
                 Some m \<Rightarrow> Some m
               | None \<Rightarrow> map_of (parse_qsl (query parsed_url)) ''id''))"

subsection \<open>\<^verbatim>\<open>fnmatch\<close>\<close>

datatype glob_item = GSingle char | GRange char char

datatype glob_tok = GStar | GAny | GLit char | GSet bool "glob_item list"

text \<open>
  The items of a bracket expression. Its first character is never the hyphen of a range,
  and neither is the character after a range.
\<close>

fun set_items :: "string \<Rightarrow> glob_item list" where
  "set_items [] = []"
| "set_items [c] = [GSingle c]"
| "set_items (c # d # rest) =
     (if d = CHR ''-'' \<and> rest \<noteq> [] then GRange c (hd rest) # set_items (tl rest)
      else GSingle c # set_items (d # rest))"

fun empty_range :: "glob_item \<Rightarrow> bool" where
  "empty_range (GRange lo hi) = ((of_char hi :: nat) < of_char lo)"
| "empty_range (GSingle c) = False"

text \<open>
  The bracket expression that \<^verbatim>\<open>fnmatch.translate\<close> builds from the text between the
  brackets: ranges that are empty are dropped, and when that leaves an exclamation mark
  in front, the expression is read as a negated one.
\<close>

definition glob_set :: "bool \<Rightarrow> string \<Rightarrow> glob_tok" where
  "glob_set neg body =
     (let items = set_items body; lead = dropWhile empty_range items in
      if \<not> neg \<and> items \<noteq> [] \<and> empty_range (hd items) then
        (case lead of
           GSingle c # others \<Rightarrow>
             if c = CHR ''!'' then GSet True (filter (\<lambda>i. \<not> empty_range i) others)
             else GSet False (filter (\<lambda>i. \<not> empty_range i) lead)
         | GRange c hi # others \<Rightarrow>
             if c = CHR ''!''
             then GSet True (GSingle (CHR ''-'') # GSingle hi # filter (\<lambda>i. \<not> empty_range i) others)
             else GSet False (filter (\<lambda>i. \<not> empty_range i) lead)
         | [] \<Rightarrow> GSet False [])
      else GSet neg (filter (\<lambda>i. \<not> empty_range i) items))"

text \<open>
  The text after an opening bracket: whether it is negated, the text up to the closing
  bracket (a bracket in first place does not close), and the rest of the pattern;
  \<open>None\<close> when no bracket closes.
\<close>

definition find_close :: "string \<Rightarrow> (bool \<times> string \<times> string) option" where
  "find_close rest =
     (let neg = (take 1 rest = ''!'');
          r1 = (if neg then drop 1 rest else rest);
          lead = (if take 1 r1 = '']'' then '']'' else []);
          r2 = drop (length lead) r1
      in if CHR '']'' \<in> set r2
         then Some (neg, lead @ before (CHR '']'') r2, after (CHR '']'') r2)
         else None)"

function glob_parse :: "string \<Rightarrow> glob_tok list" where
  "glob_parse [] = []"
| "glob_parse (c # cs) =
     (if c = CHR ''*'' then GStar # glob_parse cs
      else if c = CHR ''?'' then GAny # glob_parse cs
      else if c = CHR ''['' then
        (case find_close cs of
           None \<Rightarrow> GLit c # glob_parse cs
         | Some (neg, body, rest) \<Rightarrow> glob_set neg body # glob_parse rest)
      else GLit c # glob_parse cs)"
  by pat_completeness auto
termination
proof (relation "measure length")
  fix c cs x2 neg y body rest
  assume "find_close cs = Some x2" "(neg, y) = x2" "(body, rest) = y"
  then obtain r2 where r2: "rest = after (CHR '']'') r2" "length r2 \<le> length cs"
    by (auto simp: find_close_def Let_def split: if_splits)
  have "length (after (CHR '']'') r2) \<le> length r2"
    using length_dropWhile_le[of "\<lambda>x. x \<noteq> CHR '']''" r2] by (simp add: after_def)
  with r2 show "(rest, c # cs) \<in> measure length" by simp
qed auto

fun in_item :: "glob_item \<Rightarrow> char \<Rightarrow> bool" where
  "in_item (GSingle x) c = (c = x)"
| "in_item (GRange lo hi) c = between lo hi c"

fun tok_ok :: "glob_tok \<Rightarrow> char \<Rightarrow> bool" where
  "tok_ok GAny c = True"
| "tok_ok (GLit x) c = (c = x)"
| "tok_ok (GSet neg items) c = (list_ex (\<lambda>i. in_item i c) items \<noteq> neg)"
| "tok_ok GStar c = True"

text \<open>Matching of the whole name: a star stands for any text, also for none.\<close>

fun glob_match :: "glob_tok list \<Rightarrow> string \<Rightarrow> bool" where
  "glob_match [] s = (s = [])"
| "glob_match (GStar # ts) [] = glob_match ts []"
| "glob_match (GStar # ts) (c # s) = (glob_match ts (c # s) \<or> glob_match (GStar # ts) s)"
| "glob_match (t # ts) [] = False"
| "glob_match (t # ts) (c # s) = (tok_ok t c \<and> glob_match ts s)"

text \<open>\<^verbatim>\<open>fnmatch.fnmatch(filename, pattern)\<close>; on POSIX \<^verbatim>\<open>os.path.normcase\<close> changes nothing.\<close>

definition fnmatch :: "string \<Rightarrow> string \<Rightarrow> bool" where
  "fnmatch filename pattern = glob_match (glob_parse pattern) filename"

subsection \<open>\<^verbatim>\<open>re.match\<close>\<close>

text \<open>
  A fragment of the syntax of regular expressions: characters, the dot, the classes
  \<^verbatim>\<open>\d \w \s \D \W \S\<close>, escaped punctuation, groups, alternatives and the repetitions
  \<^verbatim>\<open>* + ?\<close>, greedy or lazy. Compiling a pattern has three outcomes: \<^verbatim>\<open>re.error\<close>, an
  expression of the fragment, or a pattern the fragment does not cover.
\<close>

datatype cclass = CChar char | CAny | CDigit | CWord | CSpace | CNot cclass

datatype rx = Never | Eps | Atom cclass | Seq rx rx | Alt rx rx | Star rx

datatype compiled = Malformed | Unmodelled | Regex rx

fun in_class :: "cclass \<Rightarrow> char \<Rightarrow> bool" where
  "in_class (CChar x) c = (c = x)"
| "in_class CAny c = (c \<noteq> CHR 0x0A)"
| "in_class CDigit c = is_digit c"
| "in_class CWord c = (is_alpha c \<or> is_digit c \<or> c = CHR ''_'')"
| "in_class CSpace c =
     (c = CHR '' '' \<or> between (CHR 0x09) (CHR 0x0D) c \<or> between (CHR 0x1C) (CHR 0x1F) c)"
| "in_class (CNot k) c = (\<not> in_class k c)"

definition escape_class :: "char \<Rightarrow> cclass option" where
  "escape_class d =
     (if d = CHR ''d'' then Some CDigit else if d = CHR ''D'' then Some (CNot CDigit)
      else if d = CHR ''w'' then Some CWord else if d = CHR ''W'' then Some (CNot CWord)
      else if d = CHR ''s'' then Some CSpace else if d = CHR ''S'' then Some (CNot CSpace)
      else if is_alpha d \<or> is_digit d then None
      else Some (CChar d))"

fun seq_of :: "rx list \<Rightarrow> rx" where
  "seq_of [] = Eps"
| "seq_of (r # rs) = Seq r (seq_of rs)"

fun alt_of :: "rx list \<Rightarrow> rx" where
  "alt_of [] = Never"
| "alt_of [r] = r"
| "alt_of (r # rs) = Alt r (alt_of rs)"

text \<open>
  A frame of the parser: the alternatives completed so far, the items of the current
  alternative with the last one in front, and whether that item is a repetition.
\<close>

type_synonym frame = "rx list \<times> rx list \<times> bool"

fun close_frame :: "frame \<Rightarrow> rx" where
  "close_frame (alts, cur, q) = alt_of (alts @ [seq_of (rev cur)])"

definition quantify :: "char \<Rightarrow> rx \<Rightarrow> rx" where
  "quantify c r =
     (if c = CHR ''*'' then Star r else if c = CHR ''+'' then Seq r (Star r) else Alt r Eps)"

function parse :: "string \<Rightarrow> frame \<Rightarrow> frame list \<Rightarrow> compiled" where
  "parse [] f stack = (if stack = [] then Regex (close_frame f) else Malformed)"
| "parse (c # cs) (alts, cur, q) stack =
     (if c = CHR ''('' then
        (if take 1 cs = ''?'' then Unmodelled
         else parse cs ([], [], False) ((alts, cur, q) # stack))
      else if c = CHR '')'' then
        (case stack of
           [] \<Rightarrow> Malformed
         | (alts', cur', q') # stack' \<Rightarrow>
             parse cs (alts', close_frame (alts, cur, q) # cur', False) stack')
      else if c = CHR ''|'' then parse cs (alts @ [seq_of (rev cur)], [], False) stack
      else if c = CHR ''*'' \<or> c = CHR ''+'' \<or> c = CHR ''?'' then
        (case cur of
           [] \<Rightarrow> Malformed
         | r # rs \<Rightarrow>
             if q then Malformed
             else if take 1 cs = ''+'' then Unmodelled
             else parse (if take 1 cs = ''?'' then drop 1 cs else cs)
                    (alts, quantify c r # rs, True) stack)
      else if c = CHR 0x5C then
        (case cs of
           [] \<Rightarrow> Malformed
         | d # ds \<Rightarrow>
             (case escape_class d of
                None \<Rightarrow> Unmodelled
              | Some k \<Rightarrow> parse ds (alts, Atom k # cur, False) stack))
      else if c = CHR ''['' \<or> c = CHR ''{'' \<or> c = CHR ''^'' \<or> c = CHR ''$'' then Unmodelled
      else parse cs (alts, Atom (if c = CHR ''.'' then CAny else CChar c) # cur, False) stack)"
  by pat_completeness auto
termination
  by (relation "measure (\<lambda>(p, f, stack). length p)") auto

definition re_compile :: "string \<Rightarrow> compiled" where
  "re_compile p = parse p ([], [], False) []"

fun nullable :: "rx \<Rightarrow> bool" where
  "nullable Never = False"
| "nullable Eps = True"
| "nullable (Atom k) = False"
| "nullable (Seq a b) = (nullable a \<and> nullable b)"
| "nullable (Alt a b) = (nullable a \<or> nullable b)"
| "nullable (Star a) = True"

fun deriv :: "char \<Rightarrow> rx \<Rightarrow> rx" where
  "deriv c Never = Never"
| "deriv c Eps = Never"
| "deriv c (Atom k) = (if in_class k c then Eps else Never)"
| "deriv c (Seq a b) =
     (if nullable a then Alt (Seq (deriv c a) b) (deriv c b) else Seq (deriv c a) b)"
| "deriv c (Alt a b) = Alt (deriv c a) (deriv c b)"
| "deriv c (Star a) = Seq (deriv c a) (Star a)"

text \<open>
  Whether the expression matches at the start of the text: some prefix of the text, maybe
  the empty one, is a word of the expression.
\<close>

fun rx_match :: "rx \<Rightarrow> string \<Rightarrow> bool" where
  "rx_match r [] = nullable r"
| "rx_match r (c # cs) = (nullable r \<or> rx_match (deriv c r) cs)"

text \<open>
  \<^verbatim>\<open>bool(re.match(pattern, text))\<close>, with \<open>None\<close> for \<^verbatim>\<open>re.error\<close>. Outside the fragment
  the answer is that of \<open>re_other\<close>.
\<close>

definition re_match :: "env \<Rightarrow> string \<Rightarrow> string \<Rightarrow> bool option" where
  "re_match E pattern text =
     (case re_compile pattern of
        Regex r \<Rightarrow> Some (rx_match r text)
      | Malformed \<Rightarrow> None
      | Unmodelled \<Rightarrow> re_other E pattern text)"



subsection \<open>\<^verbatim>\<open>pattern_matches\<close>\<close>

text \<open>
  The \<^verbatim>\<open>try\<close> block returns the answer of the regular expression when the pattern starts
  with \<^verbatim>\<open>r:\<close>; on \<^verbatim>\<open>re.error\<close> the handler passes and the function goes on to
  \<^verbatim>\<open>fnmatch\<close> with the whole pattern, as it does for a pattern without the marker.
\<close>

definition pattern_matches :: "env \<Rightarrow> string \<Rightarrow> string \<Rightarrow> bool" where
  "pattern_matches E filename pattern =
     (if prefix ''r:'' pattern then
        (case re_match E (drop 2 pattern) filename of
           Some m \<Rightarrow> m
         | None \<Rightarrow> fnmatch filename pattern)
      else fnmatch filename pattern)"

subsection \<open>\<^verbatim>\<open>os.path.splitext\<close>\<close>

text \<open>
  The extension starts at the last dot of the last path segment, unless only dots precede
  it in that segment.
\<close>

definition splitext :: "string \<Rightarrow> string \<times> string" where
  "splitext p =
     (let seg = last_part (CHR ''/'') p;
          ext = CHR ''.'' # last_part (CHR ''.'') seg
      in if CHR ''.'' \<in> set seg
            \<and> list_ex (\<lambda>c. c \<noteq> CHR ''.'') (take (length seg - length ext) seg)
         then (take (length p - length ext) p, ext)
         else (p, []))"

section \<open>The operations of \<^verbatim>\<open>DriveManager\<close>\<close>

text \<open>
  An operation that always returns has a result of type \<open>(exn + 'a) \<times> st\<close>: the exception
  it raises or the value it returns, and the trace. An operation that contains the listing
  loop or the recursion over folders may run forever; its result is optional, and \<open>None\<close>
  stands for a run without end.
\<close>

text \<open>\<^verbatim>\<open>d['k']\<close> and \<^verbatim>\<open>d.get('k')\<close> on what \<^verbatim>\<open>_execute_with_retry\<close> returned.\<close>

definition subscript :: "response option \<Rightarrow> (response \<Rightarrow> 'a option) \<Rightarrow> string \<Rightarrow> exn + 'a" where
  "subscript d field k =
     (case d of
        None \<Rightarrow> Inl (TypeError ''NoneType object is not subscriptable'')
      | Some r \<Rightarrow> (case field r of None \<Rightarrow> Inl (KeyError k) | Some v \<Rightarrow> Inr v))"

definition get_key :: "response option \<Rightarrow> (response \<Rightarrow> 'a option) \<Rightarrow> exn + 'a option" where
  "get_key d field =
     (case d of
        None \<Rightarrow> Inl (AttributeError ''NoneType object has no attribute get'')
      | Some r \<Rightarrow> Inr (field r))"

text \<open>The truth value of an optional string: \<^verbatim>\<open>None\<close> and the empty string are false.\<close>

fun truthy :: "string option \<Rightarrow> bool" where
  "truthy None = False"
| "truthy (Some s) = (s \<noteq> [])"

definition if_truthy :: "string option \<Rightarrow> string option" where
  "if_truthy x = (if truthy x then x else None)"

definition folder_mime :: string where
  "folder_mime = ''application/vnd.google-apps.folder''"

text \<open>The query \<^verbatim>\<open>f"'{folder_id}' in parents"\<close>.\<close>

definition in_parents :: "string \<Rightarrow> string" where
  "in_parents folder_id = [CHR 0x27] @ folder_id @ [CHR 0x27] @ '' in parents''"

subsection \<open>\<^verbatim>\<open>list_folder_contents\<close>\<close>

text \<open>
  The loop \<^verbatim>\<open>while True\<close>, from the items collected so far and the page token. It has no
  bound: a store that always sends a token keeps it running.
\<close>

partial_function (option) list_pages ::
    "env \<Rightarrow> string \<Rightarrow> item list \<Rightarrow> string option \<Rightarrow> st \<Rightarrow> ((exn + item list) \<times> st) option" where
  "list_pages E folder_id items page_token s =
     (case execute_with_retry E
             (FilesList (in_parents folder_id) (Some (batch_size E)) page_token) s of
        (Inl e, s1) \<Rightarrow> Some (Inl e, s1)
      | (Inr results, s1) \<Rightarrow>
          (case get_key results r_files of
             Inl e \<Rightarrow> Some (Inl e, s1)
           | Inr files \<Rightarrow>
               (case get_key results r_nextPageToken of
                  Inl e \<Rightarrow> Some (Inl e, s1)
                | Inr next_token \<Rightarrow>
                    if truthy next_token
                    then list_pages E folder_id (items @ (case files of None \<Rightarrow> [] | Some fs \<Rightarrow> fs))
                           next_token s1
                    else Some (Inr (items @ (case files of None \<Rightarrow> [] | Some fs \<Rightarrow> fs)), s1))))"

declare list_pages.simps [code]

definition list_folder_contents ::
    "env \<Rightarrow> string \<Rightarrow> st \<Rightarrow> ((exn + item list) \<times> st) option" where
  "list_folder_contents E folder_id s = list_pages E folder_id [] None s"

subsection \<open>Copying\<close>

definition copy_file ::
    "env \<Rightarrow> string \<Rightarrow> string option \<Rightarrow> string option \<Rightarrow> st \<Rightarrow> (exn + string) \<times> st" where
  "copy_file E file_id parent_id new_name s =
     (case execute_with_retry E (FilesCopy file_id (if_truthy parent_id) (if_truthy new_name)) s of
        (Inl e, s1) \<Rightarrow> (Inl e, s1)
      | (Inr copied_file, s1) \<Rightarrow> (subscript copied_file r_id ''id'', s1))"

text \<open>
  \<^verbatim>\<open>copy_drive_item\<close>, \<^verbatim>\<open>_copy_folder\<close> and the loop of the latter over the items of the
  folder. The first argument bounds the depth of the recursion: \<^verbatim>\<open>copy_drive_item\<close> on a
  folder calls \<^verbatim>\<open>_copy_folder\<close>, which calls \<^verbatim>\<open>copy_drive_item\<close> on every item; nothing
  in the code stops this when the store describes a folder that contains itself. The
  handler of \<^verbatim>\<open>copy_drive_item\<close> logs and raises again. Nothing in \<^verbatim>\<open>_copy_folder\<close> catches
  what the copy of an item raises.
\<close>

function copy_drive_item ::
    "nat \<Rightarrow> env \<Rightarrow> string \<Rightarrow> string option \<Rightarrow> string option \<Rightarrow> st \<Rightarrow> ((exn + string) \<times> st) option"
and copy_folder ::
    "nat \<Rightarrow> env \<Rightarrow> string \<Rightarrow> string option \<Rightarrow> string option \<Rightarrow> st \<Rightarrow> ((exn + string) \<times> st) option"
and copy_items ::
    "nat \<Rightarrow> env \<Rightarrow> item list \<Rightarrow> string \<Rightarrow> st \<Rightarrow> ((exn + unit) \<times> st) option"
where
  "copy_drive_item 0 E item_id destination_folder_id new_name s = None"
| "copy_drive_item (Suc n) E item_id destination_folder_id new_name s =
     (case get_file_metadata E item_id s of
        (Inl e, s1) \<Rightarrow> Some (Inl e, s1)
      | (Inr metadata, s1) \<Rightarrow>
          (case subscript metadata r_mimeType ''mimeType'' of
             Inl e \<Rightarrow> Some (Inl e, s1)
           | Inr mime \<Rightarrow>
               if mime = folder_mime
               then copy_folder n E item_id destination_folder_id new_name s1
               else Some (copy_file E item_id destination_folder_id new_name s1)))"
| "copy_folder n E folder_id parent_id new_name s =
     (case get_file_metadata E folder_id s of
        (Inl e, s1) \<Rightarrow> Some (Inl e, s1)
      | (Inr folder_metadata, s1) \<Rightarrow>
          (case (if truthy new_name then Inr (the new_name)
                 else subscript folder_metadata r_name ''name'') of
             Inl e \<Rightarrow> Some (Inl e, s1)
           | Inr name \<Rightarrow>
               (case execute_with_retry E (FilesCreate name (if_truthy parent_id)) s1 of
                  (Inl e, s2) \<Rightarrow> Some (Inl e, s2)
                | (Inr created_folder, s2) \<Rightarrow>
                    (case subscript created_folder r_id ''id'' of
                       Inl e \<Rightarrow> Some (Inl e, s2)
                     | Inr new_folder_id \<Rightarrow>
                         (case list_folder_contents E folder_id s2 of
                            None \<Rightarrow> None
                          | Some (Inl e, s3) \<Rightarrow> Some (Inl e, s3)
                          | Some (Inr items, s3) \<Rightarrow>
                              (case subscript folder_metadata r_name ''name'' of
                                 Inl e \<Rightarrow> Some (Inl e, s3)
                               | Inr desc \<Rightarrow>
                                   (case copy_items n E items new_folder_id s3 of
                                      None \<Rightarrow> None
                                    | Some (Inl e, s4) \<Rightarrow> Some (Inl e, s4)
                                    | Some (Inr u, s4) \<Rightarrow> Some (Inr new_folder_id, s4))))))))"
| "copy_items n E [] new_folder_id s = Some (Inr (), s)"
| "copy_items n E (item # items) new_folder_id s =
     (case copy_drive_item n E (f_id item) (Some new_folder_id) None s of
        None \<Rightarrow> None
      | Some (Inl e, s1) \<Rightarrow> Some (Inl e, s1)
      | Some (Inr copied, s1) \<Rightarrow> copy_items n E items new_folder_id s1)"
  by pat_completeness auto
termination
  by (relation "inv_image (less_than <*lex*> less_than <*lex*> less_than)
        (\<lambda>x. case x of
           Inl (n, E, item_id, dest, new_name, s) \<Rightarrow> (n, 0, 0)
         | Inr (Inl (n, E, folder_id, parent_id, new_name, s)) \<Rightarrow> (n, 2, 0)
         | Inr (Inr (n, E, items, new_folder_id, s)) \<Rightarrow> (n, 1, length items))")
     (simp_all add: wf_lex_prod)

subsection \<open>\<^verbatim>\<open>batch_rename\<close>, \<^verbatim>\<open>delete_items\<close> and \<^verbatim>\<open>copy_to_subfolders\<close>\<close>

text \<open>\<^verbatim>\<open>prefix or ''\<close>.\<close>

fun or_empty :: "string option \<Rightarrow> string" where
  "or_empty None = []"
| "or_empty (Some s) = s"

text \<open>\<^verbatim>\<open>f"{prefix or ''}{name}{suffix or ''}{ext}"\<close> for the name split by \<^verbatim>\<open>splitext\<close>.\<close>

definition renamed :: "string option \<Rightarrow> string option \<Rightarrow> string \<Rightarrow> string" where
  "renamed prefix' suffix' old =
     or_empty prefix' @ fst (splitext old) @ or_empty suffix' @ snd (splitext old)"

text \<open>
  The loop of \<^verbatim>\<open>batch_rename\<close> over the listing, with the pairs collected so far. The
  handler \<^verbatim>\<open>except HttpError\<close> logs the error and the loop goes on; another exception
  leaves the loop.
\<close>

fun rename_items ::
    "env \<Rightarrow> string \<Rightarrow> string option \<Rightarrow> string option \<Rightarrow> item list \<Rightarrow> (string \<times> string) list
      \<Rightarrow> st \<Rightarrow> (exn + (string \<times> string) list) \<times> st" where
  "rename_items E pattern prefix' suffix' [] renamed_items s = (Inr renamed_items, s)"
| "rename_items E pattern prefix' suffix' (item # items) renamed_items s =
     (if pattern_matches E (f_name item) pattern then
        (case execute_with_retry E
                (FilesUpdate (f_id item) (renamed prefix' suffix' (f_name item))) s of
           (Inr u, s1) \<Rightarrow>
             rename_items E pattern prefix' suffix' items
               (renamed_items @ [(f_name item, renamed prefix' suffix' (f_name item))]) s1
         | (Inl (HttpError c m), s1) \<Rightarrow>
             rename_items E pattern prefix' suffix' items renamed_items s1
         | (Inl e, s1) \<Rightarrow> (Inl e, s1))
      else rename_items E pattern prefix' suffix' items renamed_items s)"

definition batch_rename ::
    "env \<Rightarrow> string \<Rightarrow> string \<Rightarrow> string option \<Rightarrow> string option \<Rightarrow> st
      \<Rightarrow> ((exn + (string \<times> string) list) \<times> st) option" where
  "batch_rename E folder_id pattern prefix' suffix' s =
     (if \<not> truthy prefix' \<and> \<not> truthy suffix'
      then Some (Inl (ValueError ''Either prefix or suffix must be specified''), s)
      else
        (case list_folder_contents E folder_id s of
           None \<Rightarrow> None
         | Some (Inl e, s1) \<Rightarrow> Some (Inl e, s1)
         | Some (Inr items, s1) \<Rightarrow> Some (rename_items E pattern prefix' suffix' items [] s1)))"



fun delete_loop ::
    "env \<Rightarrow> string \<Rightarrow> item list \<Rightarrow> string list \<Rightarrow> st \<Rightarrow> (exn + string list) \<times> st" where
  "delete_loop E pattern [] deleted_items s = (Inr deleted_items, s)"
| "delete_loop E pattern (item # items) deleted_items s =
     (if pattern_matches E (f_name item) pattern then
        (case execute_with_retry E (FilesDelete (f_id item)) s of
           (Inr u, s1) \<Rightarrow> delete_loop E pattern items (deleted_items @ [f_name item]) s1
         | (Inl (HttpError c m), s1) \<Rightarrow> delete_loop E pattern items deleted_items s1
         | (Inl e, s1) \<Rightarrow> (Inl e, s1))
      else delete_loop E pattern items deleted_items s)"

definition delete_items ::
    "env \<Rightarrow> string \<Rightarrow> string \<Rightarrow> st \<Rightarrow> ((exn + string list) \<times> st) option" where
  "delete_items E folder_id pattern s =
     (case list_folder_contents E folder_id s of
        None \<Rightarrow> None
      | Some (Inl e, s1) \<Rightarrow> Some (Inl e, s1)
      | Some (Inr items, s1) \<Rightarrow> Some (delete_loop E pattern items [] s1))"

text \<open>
  The loop of \<^verbatim>\<open>copy_to_subfolders\<close>: the handler \<^verbatim>\<open>except Exception\<close> logs whatever the
  copy raises and the loop goes on.
\<close>

fun copy_to_each ::
    "nat \<Rightarrow> env \<Rightarrow> string \<Rightarrow> item list \<Rightarrow> string list \<Rightarrow> st \<Rightarrow> (string list \<times> st) option" where
  "copy_to_each n E source_file_id [] copied_files s = Some (copied_files, s)"
| "copy_to_each n E source_file_id (folder # subfolders) copied_files s =
     (case copy_drive_item n E source_file_id (Some (f_id folder)) None s of
        None \<Rightarrow> None
      | Some (Inr copied_id, s1) \<Rightarrow>
          copy_to_each n E source_file_id subfolders (copied_files @ [copied_id]) s1
      | Some (Inl e, s1) \<Rightarrow> copy_to_each n E source_file_id subfolders copied_files s1)"

definition subfolders_of :: "string \<Rightarrow> string" where
  "subfolders_of folder_id =
     in_parents folder_id @ '' and mimeType='' @ [CHR 0x27] @ folder_mime @ [CHR 0x27]"

definition copy_to_subfolders ::
    "nat \<Rightarrow> env \<Rightarrow> string \<Rightarrow> string \<Rightarrow> st \<Rightarrow> ((exn + string list) \<times> st) option" where
  "copy_to_subfolders n E source_file_id folder_id s =
     (case execute_with_retry E (FilesList (subfolders_of folder_id) None None) s of
        (Inl e, s1) \<Rightarrow> Some (Inl e, s1)
      | (Inr listing, s1) \<Rightarrow>
          (case get_key listing r_files of
             Inl e \<Rightarrow> Some (Inl e, s1)
           | Inr files \<Rightarrow>
               (case get_file_metadata E source_file_id s1 of
                  (Inl e, s2) \<Rightarrow> Some (Inl e, s2)
                | (Inr source_metadata, s2) \<Rightarrow>
                    (case subscript source_metadata r_name ''name'' of
                       Inl e \<Rightarrow> Some (Inl e, s2)
                     | Inr desc \<Rightarrow>
                         (case copy_to_each n E source_file_id
                                 (case files of None \<Rightarrow> [] | Some fs \<Rightarrow> fs) [] s2 of
                            None \<Rightarrow> None
                          | Some (copied, s3) \<Rightarrow> Some (Inr copied, s3))))))"

subsection \<open>Batch commands\<close>

text \<open>
  A command of the batch file: a dictionary from field names to strings, as the file
  format has it. \<^verbatim>\<open>command['k']\<close> raises \<^verbatim>\<open>KeyError\<close> on a missing field,
  \<^verbatim>\<open>command.get('k')\<close> yields \<^verbatim>\<open>None\<close>.
\<close>

type_synonym command = "string \<rightharpoonup> string"

definition field :: "command \<Rightarrow> string \<Rightarrow> exn + string" where
  "field command k = (case command k of None \<Rightarrow> Inl (KeyError k) | Some v \<Rightarrow> Inr v)"

datatype detail =
    NewId string
  | RenamedItems "(string \<times> string) list"
  | DeletedItems "string list"
  | CopiedFiles "string list"

text \<open>
  The dictionary a command yields. \<^verbatim>\<open>execute_batch_command\<close> always sets \<^verbatim>\<open>action\<close>,
  \<^verbatim>\<open>status\<close> and \<^verbatim>\<open>details\<close>; the entry that \<^verbatim>\<open>execute_batch\<close> writes for an exception
  has no \<^verbatim>\<open>details\<close>, and its \<^verbatim>\<open>action\<close> may be \<^verbatim>\<open>None\<close>.
\<close>

record result =
  action :: "string option"
  status :: string
  details :: "(string \<times> detail) list option"
  error :: "string option"

text \<open>\<^verbatim>\<open>str(e)\<close>.\<close>

fun str :: "exn \<Rightarrow> string" where
  "str (HttpError c m) = m"
| "str (ValueError m) = m"
| "str (KeyError k) = [CHR 0x27] @ k @ [CHR 0x27]"
| "str (AttributeError m) = m"
| "str (TypeError m) = m"

text \<open>\<^verbatim>\<open>parse_shared_link\<close>.\<close>

definition parse_shared_link :: "env \<Rightarrow> string \<Rightarrow> exn + string" where
  "parse_shared_link E url =
     (case extract_file_id_from_url E url of
        Inl e \<Rightarrow> Inl e
      | Inr file_id \<Rightarrow>
          if truthy file_id then Inr (the file_id)
          else Inl (ValueError ''Invalid Google Drive URL or could not extract file ID''))"

text \<open>
  The body of the \<^verbatim>\<open>try\<close> statement of \<^verbatim>\<open>execute_batch_command\<close>: what it raises, or the
  entry it puts into \<^verbatim>\<open>result['details']\<close>.
\<close>

definition dispatch ::
    "nat \<Rightarrow> env \<Rightarrow> command \<Rightarrow> string \<Rightarrow> st \<Rightarrow> ((exn + string \<times> detail) \<times> st) option" where
  "dispatch n E command act s =
     (if act = ''copy'' then
        (case field command ''source'' of
           Inl e \<Rightarrow> Some (Inl e, s)
         | Inr source \<Rightarrow>
             (case parse_shared_link E source of
                Inl e \<Rightarrow> Some (Inl e, s)
              | Inr source_id \<Rightarrow>
                  (case copy_drive_item n E source_id (command ''destination'') None s of
                     None \<Rightarrow> None
                   | Some (Inl e, s1) \<Rightarrow> Some (Inl e, s1)
                   | Some (Inr new_id, s1) \<Rightarrow> Some (Inr (''new_id'', NewId new_id), s1))))
      else if act = ''rename'' then
        (case field command ''folder_id'' of
           Inl e \<Rightarrow> Some (Inl e, s)
         | Inr folder_id \<Rightarrow>
             (case field command ''target'' of
                Inl e \<Rightarrow> Some (Inl e, s)
              | Inr pattern \<Rightarrow>
                  (case batch_rename E folder_id pattern (command ''prefix'') (command ''suffix'') s of
                     None \<Rightarrow> None
                   | Some (Inl e, s1) \<Rightarrow> Some (Inl e, s1)
                   | Some (Inr pairs, s1) \<Rightarrow> Some (Inr (''renamed_items'', RenamedItems pairs), s1))))
      else if act = ''delete'' then
        (case field command ''folder_id'' of
           Inl e \<Rightarrow> Some (Inl e, s)
         | Inr folder_id \<Rightarrow>
             (case field command ''pattern'' of
                Inl e \<Rightarrow> Some (Inl e, s)
              | Inr pattern \<Rightarrow>
                  (case delete_items E folder_id pattern s of
                     None \<Rightarrow> None
                   | Some (Inl e, s1) \<Rightarrow> Some (Inl e, s1)
                   | Some (Inr names, s1) \<Rightarrow> Some (Inr (''deleted_items'', DeletedItems names), s1))))
      else if act = ''copy_to_subfolders'' then
        (case field command ''source_id'' of
           Inl e \<Rightarrow> Some (Inl e, s)
         | Inr source_id \<Rightarrow>
             (case field command ''folder_id'' of
                Inl e \<Rightarrow> Some (Inl e, s)
              | Inr folder_id \<Rightarrow>
                  (case copy_to_subfolders n E source_id folder_id s of
                     None \<Rightarrow> None
                   | Some (Inl e, s1) \<Rightarrow> Some (Inl e, s1)
                   | Some (Inr ids, s1) \<Rightarrow> Some (Inr (''copied_files'', CopiedFiles ids), s1))))
      else Some (Inl (ValueError (''Unknown action: '' @ act)), s))"

text \<open>
  \<^verbatim>\<open>execute_batch_command\<close>. The test of \<^verbatim>\<open>action\<close> and its \<^verbatim>\<open>raise\<close> stand before the
  \<^verbatim>\<open>try\<close> statement. The handler \<^verbatim>\<open>except Exception\<close> sets \<^verbatim>\<open>status\<close> and \<^verbatim>\<open>error\<close>.
\<close>

definition execute_batch_command ::
    "nat \<Rightarrow> env \<Rightarrow> command \<Rightarrow> st \<Rightarrow> ((exn + result) \<times> st) option" where
  "execute_batch_command n E command s =
     (if \<not> truthy (command ''action'')
      then Some (Inl (ValueError (''Command must specify an '' @ [CHR 0x27] @ ''action'' @ [CHR 0x27])), s)
      else
        (case dispatch n E command (the (command ''action'')) s of
           None \<Rightarrow> None
         | Some (Inr d, s1) \<Rightarrow>
             Some (Inr \<lparr>action = command ''action'', status = ''success'',
                        details = Some [d], error = None\<rparr>, s1)
         | Some (Inl e, s1) \<Rightarrow>
             Some (Inr \<lparr>action = command ''action'', status = ''error'',
                        details = Some [], error = Some (str e)\<rparr>, s1)))"

text \<open>
  The loop of \<^verbatim>\<open>execute_batch\<close> in \<^verbatim>\<open>gdrive_tool.py\<close> over the commands of the file, with
  the results collected so far. Its handler \<^verbatim>\<open>except Exception\<close> appends an entry for
  what \<^verbatim>\<open>execute_batch_command\<close> raises.
\<close>

fun execute_batch ::
    "nat \<Rightarrow> env \<Rightarrow> command list \<Rightarrow> result list \<Rightarrow> st \<Rightarrow> (result list \<times> st) option" where
  "execute_batch n E [] results s = Some (results, s)"
| "execute_batch n E (cmd # cmds) results s =
     (case execute_batch_command n E cmd s of
        None \<Rightarrow> None
      | Some (Inr r, s1) \<Rightarrow> execute_batch n E cmds (results @ [r]) s1
      | Some (Inl e, s1) \<Rightarrow>
          execute_batch n E cmds
            (results @ [\<lparr>action = cmd ''action'', status = ''error'',
                         details = None, error = Some (str e)\<rparr>]) s1)"

section \<open>Stores and configurations for concrete runs\<close>

definition no_response :: response where
  "no_response =
     \<lparr>r_id = None, r_name = None, r_mimeType = None, r_files = None, r_nextPageToken = None\<rparr>"

text \<open>
  A store that answers the \<open>i\<close>-th request it receives with the \<open>i\<close>-th entry of a script,
  whatever the request, and with status 404 once the script is used up.
\<close>

definition scripted :: "((int \<times> string) + response) list \<Rightarrow> request list \<Rightarrow> request \<Rightarrow>
    (int \<times> string) + response" where
  "scripted outs h r = (if length h < length outs then outs ! length h else Inl (404, ''Not Found''))"

definition config :: "(request list \<Rightarrow> request \<Rightarrow> (int \<times> string) + response) \<Rightarrow> int \<Rightarrow> env" where
  "config store n =
     \<lparr>remote = store, batch_size = 100, max_retries = n, retry_delay = 1,
      re_other = (\<lambda>p n. None), host_error = (\<lambda>h. None)\<rparr>"

text \<open>
  Three stores: one that is unavailable twice and then answers, one that is down, and one
  that knows no file. The first two come with three and two attempts.
\<close>

definition flaky :: env where
  "flaky = config (scripted [Inl (503, ''Service Unavailable''), Inl (429, ''Too Many Requests''),
     Inr no_response]) 3"

definition down :: env where
  "down = config (scripted [Inl (500, ''first''), Inl (500, ''second'')]) 2"

definition missing :: env where
  "missing = config (scripted []) 3"

text \<open>
  Modelled from the spec: a store that pages a listing as section 6 of the specification
  describes \<open>listChildren(folderId, pageSize, pageToken?)\<close>. It holds the items of one
  folder, answers a list request with the next \<open>pageSize\<close> items, and sends a
  continuation token as long as items remain. A token is a text as long as the number of
  items already sent.
\<close>

definition paged_store :: "item list \<Rightarrow> request list \<Rightarrow> request \<Rightarrow> (int \<times> string) + response" where
  "paged_store items h req =
     (case req of
        FilesList q (Some n) tok \<Rightarrow>
          (let off = (case tok of None \<Rightarrow> 0 | Some t \<Rightarrow> length t) in
           Inr (no_response
                 \<lparr>r_files := Some (take (nat n) (drop off items)),
                  r_nextPageToken :=
                    (if off + nat n < length items
                     then Some (replicate (off + nat n) (CHR ''t'')) else None)\<rparr>))
      | _ \<Rightarrow> Inl (400, ''Bad Request''))"

definition some_file :: item where
  "some_file = \<lparr>f_id = ''1'', f_name = ''a.txt'', f_mimeType = ''text/plain''\<rparr>"

text \<open>A folder of 250 items.\<close>

definition big_folder :: "item list" where
  "big_folder = replicate 250 some_file"

text \<open>
  A store with one folder \<^verbatim>\<open>F\<close>, named \<^verbatim>\<open>docs\<close>, that holds the files \<^verbatim>\<open>a\<close> and \<^verbatim>\<open>b\<close>, named
  \<^verbatim>\<open>a.txt\<close> and \<^verbatim>\<open>b.txt\<close>. Every request that names a file of the list \<open>denied\<close> is
  answered with status 403. New folders get the identifier \<^verbatim>\<open>G\<close>.
\<close>

definition folder_listing :: "item list" where
  "folder_listing =
     [\<lparr>f_id = ''a'', f_name = ''a.txt'', f_mimeType = ''text/plain''\<rparr>,
      \<lparr>f_id = ''b'', f_name = ''b.txt'', f_mimeType = ''text/plain''\<rparr>]"

definition drive :: "string list \<Rightarrow> request list \<Rightarrow> request \<Rightarrow> (int \<times> string) + response" where
  "drive denied h req =
     (case req of
        FilesGet file_id \<Rightarrow>
          if file_id \<in> set denied then Inl (403, ''Forbidden'')
          else if file_id = ''F''
          then Inr (no_response\<lparr>r_id := Some ''F'', r_name := Some ''docs'',
                                r_mimeType := Some folder_mime\<rparr>)
          else Inr (no_response\<lparr>r_id := Some file_id, r_name := Some (file_id @ ''.txt''),
                                r_mimeType := Some ''text/plain''\<rparr>)
      | FilesCopy file_id parent name \<Rightarrow>
          if file_id \<in> set denied then Inl (403, ''Forbidden'')
          else Inr (no_response\<lparr>r_id := Some (file_id @ ''-copy'')\<rparr>)
      | FilesCreate name parent \<Rightarrow> Inr (no_response\<lparr>r_id := Some ''G'', r_name := Some name\<rparr>)
      | FilesList q n tok \<Rightarrow> Inr (no_response\<lparr>r_files := Some folder_listing\<rparr>)
      | FilesUpdate file_id name \<Rightarrow>
          if file_id \<in> set denied then Inl (403, ''Forbidden'') else Inr no_response
      | FilesDelete file_id \<Rightarrow>
          if file_id \<in> set denied then Inl (403, ''Forbidden'') else Inr no_response)"

section \<open>Properties of the retrying executor\<close>

lemma requests_append [simp]: "requests (s @ t) = requests s @ requests t"
  by (induction s rule: requests.induct) auto

lemma sleeps_append [simp]: "sleeps (s @ t) = sleeps s @ sleeps t"
  by (induction s rule: sleeps.induct) auto

declare retry_loop.simps [simp del]

lemma retry_loop_stop: "\<not> rc < max_retries E \<Longrightarrow> retry_loop E req rc s = (Inr None, s)"
  by (simp add: retry_loop.simps)

lemma retry_loop_ok:
  "rc < max_retries E \<Longrightarrow> remote E (requests s) req = Inr r \<Longrightarrow>
   retry_loop E req rc s = (Inr (Some r), s @ [Call req])"
  by (simp add: retry_loop.simps[of E req rc s] execute_def)

lemma retry_loop_fatal:
  "rc < max_retries E \<Longrightarrow> remote E (requests s) req = Inl (c, m) \<Longrightarrow>
   \<not> retryable (HttpError c m) \<Longrightarrow>
   retry_loop E req rc s = (Inl (HttpError c m), s @ [Call req])"
  by (simp add: retry_loop.simps[of E req rc s] execute_def)

lemma retry_loop_last:
  "rc + 1 = max_retries E \<Longrightarrow> remote E (requests s) req = Inl (c, m) \<Longrightarrow>
   retry_loop E req rc s = (Inl (HttpError c m), s @ [Call req])"
  by (simp add: retry_loop.simps[of E req rc s] execute_def)

lemma retry_loop_again:
  assumes "rc + 1 < max_retries E" "remote E (requests s) req = Inl (c, m)"
    "retryable (HttpError c m)" "0 \<le> retry_delay E"
  shows "retry_loop E req rc s =
   retry_loop E req (rc + 1) (s @ [Call req, Sleep (2 ^ nat (rc + 1) * retry_delay E)])"
proof -
  have "\<not> 2 ^ nat (rc + 1) * retry_delay E < 0"
    using assms(4) by (simp add: not_less)
  then show ?thesis using assms(1-3)
    by (simp add: retry_loop.simps[of E req rc s] execute_def sleep_def)
qed

lemma retry_loop_sleep_fails:
  assumes "rc + 1 < max_retries E" "remote E (requests s) req = Inl (c, m)"
    "retryable (HttpError c m)" "retry_delay E < 0"
  shows "retry_loop E req rc s =
   (Inl (ValueError ''sleep length must be non-negative''), s @ [Call req])"
proof -
  have "2 ^ nat (rc + 1) * retry_delay E < 0"
    using assms(4) by (simp add: mult_less_0_iff)
  then show ?thesis using assms(1-3)
    by (simp add: retry_loop.simps[of E req rc s] execute_def sleep_def)
qed

lemma retry_loop_trace:
  assumes "0 \<le> retry_delay E" "0 \<le> rc"
  shows "\<exists>n. snd (retry_loop E req rc s) = s @ retry_trace req (retry_delay E) (nat rc) n
           \<and> int n \<le> max 0 (max_retries E - rc) \<and> (rc < max_retries E \<longrightarrow> 0 < n)"
  using assms
proof (induction "nat (max_retries E - rc)" arbitrary: rc s)
  case 0
  then have "\<not> rc < max_retries E" by simp
  then show ?case by (intro exI[of _ 0]) (simp add: retry_loop_stop)
next
  case (Suc k)
  then have lt: "rc < max_retries E" by linarith
  show ?case
  proof (cases "remote E (requests s) req")
    case (Inr r)
    show ?thesis using lt by (intro exI[of _ 1]) (simp add: retry_loop_ok[OF lt Inr])
  next
    case (Inl p)
    obtain c m where p: "p = (c, m)" by (cases p)
    show ?thesis
    proof (cases "retryable (HttpError c m) \<and> rc + 1 < max_retries E")
      case False
      then consider "\<not> retryable (HttpError c m)" | "rc + 1 = max_retries E"
        using lt by fastforce
      then show ?thesis
      proof cases
        case 1
        show ?thesis using lt Inl p
          by (intro exI[of _ 1]) (simp add: retry_loop_fatal[OF lt _ 1])
      next
        case 2
        show ?thesis using lt Inl p
          by (intro exI[of _ 1]) (simp add: retry_loop_last[OF 2])
      qed
    next
      case True
      let ?s = "s @ [Call req, Sleep (2 ^ nat (rc + 1) * retry_delay E)]"
      have step: "retry_loop E req rc s = retry_loop E req (rc + 1) ?s"
        using retry_loop_again True Inl p Suc.prems by simp
      have "k = nat (max_retries E - (rc + 1))" using Suc.hyps(2) by linarith
      from Suc.hyps(1)[OF this Suc.prems(1), of ?s] Suc.prems(2) True
      obtain n where n: "snd (retry_loop E req (rc + 1) ?s)
            = ?s @ retry_trace req (retry_delay E) (nat (rc + 1)) n"
          "int n \<le> max 0 (max_retries E - (rc + 1))" "0 < n" by auto
      then obtain n' where n': "n = Suc n'" by (cases n) auto
      have nat: "nat (rc + 1) = Suc (nat rc)" using Suc.prems(2) by simp
      show ?thesis using n True n' nat
        by (intro exI[of _ "Suc n"]) (simp add: step)
    qed
  qed
qed

lemma requests_retry_trace [simp]: "requests (retry_trace req d k n) = replicate n req"
  by (induction req d k n rule: retry_trace.induct) auto

lemma sleeps_retry_trace:
  "sleeps (retry_trace req d k n) = map (\<lambda>j. 2 ^ j * d) [Suc k..<k + n]"
  by (induction req d k n rule: retry_trace.induct) (auto simp: upt_rec)

lemma retry_trace_Nil [simp]: "retry_trace req d k n = [] \<longleftrightarrow> n = 0"
  by (cases "(req, d, k, n)" rule: retry_trace.cases) auto

lemma last_retry_trace: "0 < n \<Longrightarrow> last (retry_trace req d k n) = Call req"
  by (induction req d k n rule: retry_trace.induct) auto

lemma retry_loop_short:
  assumes "retry_delay E < 0"
  shows "\<exists>n. requests (snd (retry_loop E req rc s)) = requests s @ replicate n req
           \<and> int n \<le> max 0 (max_retries E - rc)"
proof (cases "rc < max_retries E")
  case False
  then show ?thesis by (intro exI[of _ 0]) (simp add: retry_loop_stop)
next
  case lt: True
  show ?thesis
  proof (cases "remote E (requests s) req")
    case (Inr r)
    show ?thesis using lt by (intro exI[of _ 1]) (simp add: retry_loop_ok[OF lt Inr])
  next
    case (Inl p)
    obtain c m where p: "p = (c, m)" by (cases p)
    consider "\<not> retryable (HttpError c m)" | "rc + 1 = max_retries E"
      | "retryable (HttpError c m)" "rc + 1 < max_retries E"
      using lt by fastforce
    then show ?thesis
    proof cases
      case 1
      show ?thesis using lt Inl p
        by (intro exI[of _ 1]) (simp add: retry_loop_fatal[OF lt _ 1])
    next
      case 2
      show ?thesis using lt Inl p
        by (intro exI[of _ 1]) (simp add: retry_loop_last[OF 2])
    next
      case 3
      show ?thesis using lt Inl p assms
        by (intro exI[of _ 1]) (simp add: retry_loop_sleep_fails[OF 3(2) _ 3(1)])
    qed
  qed
qed

lemma retry_loop_fail_then_ok:
  assumes "0 \<le> retry_delay E" "0 \<le> rc" "rc + int k < max_retries E"
    "\<forall>i<k. \<exists>c m. remote E (requests s @ replicate i req) req = Inl (c, m)
        \<and> retryable (HttpError c m)"
    "remote E (requests s @ replicate k req) req = Inr r"
  shows "retry_loop E req rc s =
    (Inr (Some r), s @ retry_trace req (retry_delay E) (nat rc) (Suc k))"
  using assms(2-5)
proof (induction k arbitrary: rc s)
  case 0
  then have "rc < max_retries E" "remote E (requests s) req = Inr r" by simp_all
  from retry_loop_ok[OF this] show ?case by simp
next
  case (Suc k)
  have "\<exists>c m. remote E (requests s @ replicate 0 req) req = Inl (c, m)
      \<and> retryable (HttpError c m)"
    using Suc.prems(3) by blast
  then obtain c' m' where f: "remote E (requests s) req = Inl (c', m')"
    "retryable (HttpError c' m')" by auto
  let ?s = "s @ [Call req, Sleep (2 ^ nat (rc + 1) * retry_delay E)]"
  have "rc + 1 < max_retries E" using Suc.prems(2) by simp
  note step = retry_loop_again[OF this f assms(1)]
  have a: "\<forall>i<k. \<exists>c m. remote E (requests ?s @ replicate i req) req = Inl (c, m)
        \<and> retryable (HttpError c m)"
  proof (intro allI impI)
    fix i assume "i < k"
    then have "Suc i < Suc k" by simp
    from Suc.prems(3)[rule_format, OF this] show "\<exists>c m.
        remote E (requests ?s @ replicate i req) req = Inl (c, m) \<and> retryable (HttpError c m)"
      by simp
  qed
  have b: "remote E (requests ?s @ replicate k req) req = Inr r"
    using Suc.prems(4) by simp
  have "retry_loop E req (rc + 1) ?s =
      (Inr (Some r), ?s @ retry_trace req (retry_delay E) (nat (rc + 1)) (Suc k))"
  proof (rule Suc.IH[OF _ _ a b])
    show "0 \<le> rc + 1" using Suc.prems(1) by simp
    show "rc + 1 + int k < max_retries E" using Suc.prems(2) by simp
  qed
  moreover have "nat (rc + 1) = Suc (nat rc)" using Suc.prems(1) by simp
  ultimately show ?case unfolding step by simp
qed

lemma retry_loop_all_fail:
  assumes "0 \<le> retry_delay E" "0 \<le> rc" "rc + int (Suc k) = max_retries E"
    "\<forall>i<k. \<exists>c m. remote E (requests s @ replicate i req) req = Inl (c, m)
        \<and> retryable (HttpError c m)"
    "remote E (requests s @ replicate k req) req = Inl (c, m)"
  shows "retry_loop E req rc s =
    (Inl (HttpError c m), s @ retry_trace req (retry_delay E) (nat rc) (Suc k))"
  using assms(2-5)
proof (induction k arbitrary: rc s)
  case 0
  then have "rc + 1 = max_retries E" "remote E (requests s) req = Inl (c, m)" by simp_all
  from retry_loop_last[OF this] show ?case by simp
next
  case (Suc k)
  have "\<exists>c m. remote E (requests s @ replicate 0 req) req = Inl (c, m)
      \<and> retryable (HttpError c m)"
    using Suc.prems(3) by blast
  then obtain c' m' where f: "remote E (requests s) req = Inl (c', m')"
    "retryable (HttpError c' m')" by auto
  let ?s = "s @ [Call req, Sleep (2 ^ nat (rc + 1) * retry_delay E)]"
  have "rc + 1 < max_retries E" using Suc.prems(2) by simp
  note step = retry_loop_again[OF this f assms(1)]
  have a: "\<forall>i<k. \<exists>c m. remote E (requests ?s @ replicate i req) req = Inl (c, m)
        \<and> retryable (HttpError c m)"
  proof (intro allI impI)
    fix i assume "i < k"
    then have "Suc i < Suc k" by simp
    from Suc.prems(3)[rule_format, OF this] show "\<exists>c m.
        remote E (requests ?s @ replicate i req) req = Inl (c, m) \<and> retryable (HttpError c m)"
      by simp
  qed
  have b: "remote E (requests ?s @ replicate k req) req = Inl (c, m)"
    using Suc.prems(4) by simp
  have "retry_loop E req (rc + 1) ?s =
      (Inl (HttpError c m), ?s @ retry_trace req (retry_delay E) (nat (rc + 1)) (Suc k))"
  proof (rule Suc.IH[OF _ _ a b])
    show "0 \<le> rc + 1" using Suc.prems(1) by simp
    show "rc + 1 + int (Suc k) = max_retries E" using Suc.prems(2) by simp
  qed
  moreover have "nat (rc + 1) = Suc (nat rc)" using Suc.prems(1) by simp
  ultimately show ?case unfolding step by simp
qed

section \<open>The claims about the retrying executor\<close>

text \<open>
  Claim C10. With \<^verbatim>\<open>max_retries\<close> configured to zero or less, \<^verbatim>\<open>_execute_with_retry\<close>
  returns \<^verbatim>\<open>None\<close> without executing the request, without sleeping and without
  raising: the trace is unchanged. An operation built on it, such as
  \<^verbatim>\<open>get_file_metadata\<close>, receives \<^verbatim>\<open>None\<close> in place of a response.
\<close>

theorem execute_with_retry_no_attempts:
  assumes "max_retries E \<le> 0"
  shows "execute_with_retry E req s = (Inr None, s)
    \<and> get_file_metadata E file_id s = (Inr None, s)"
  using assms by (simp add: execute_with_retry_def get_file_metadata_def retry_loop_stop)

theorem execute_with_retry_no_attempts_witness:
  "max_retries (config (scripted []) 0) \<le> 0
   \<and> execute_with_retry (config (scripted []) 0) (FilesDelete ''f1'') [] = (Inr None, [])
   \<and> get_file_metadata (config (scripted []) (- 2)) ''f1'' [] = (Inr None, [])"
  using execute_with_retry_no_attempts[of "config (scripted []) 0" "FilesDelete ''f1''" "[]" "''f1''"]
    execute_with_retry_no_attempts[of "config (scripted []) (- 2)" "FilesDelete ''f1''" "[]" "''f1''"]
  by (simp add: config_def)

text \<open>
  Claim C3. \<^verbatim>\<open>_execute_with_retry\<close> executes the request at most \<^verbatim>\<open>max_retries\<close> times
  (not at all when that number is negative). If the request fails \<open>k\<close> times with status
  429, 500 or 503 and then succeeds, with \<open>k\<close> below \<^verbatim>\<open>max_retries\<close>, it is executed
  \<open>k + 1\<close> times and its answer is returned: three executions for two failures and
  \<^verbatim>\<open>max_retries = 3\<close>. If all of \<^verbatim>\<open>max_retries = N + 1\<close> executions fail with such a
  status, the request is executed exactly that many times and the last error is raised. If
  the first execution fails with another status, the error is raised after this one
  execution and nothing is slept. The delay is a duration, \<^verbatim>\<open>retry_delay \<ge> 0\<close>:
  \<^verbatim>\<open>time.sleep\<close> rejects a negative one.
\<close>

theorem execute_with_retry_attempts:
  "(\<exists>n. requests (snd (execute_with_retry E req s)) = requests s @ replicate n req
        \<and> int n \<le> max 0 (max_retries E))
   \<and> (0 \<le> retry_delay E \<and> int k < max_retries E
        \<and> (\<forall>i<k. \<exists>c m. remote E (requests s @ replicate i req) req = Inl (c, m)
              \<and> c \<in> {429, 500, 503})
        \<and> remote E (requests s @ replicate k req) req = Inr r
      \<longrightarrow> fst (execute_with_retry E req s) = Inr (Some r)
        \<and> requests (snd (execute_with_retry E req s)) = requests s @ replicate (Suc k) req)
   \<and> (0 \<le> retry_delay E \<and> max_retries E = int (Suc N)
        \<and> (\<forall>i<N. \<exists>c m. remote E (requests s @ replicate i req) req = Inl (c, m)
              \<and> c \<in> {429, 500, 503})
        \<and> remote E (requests s @ replicate N req) req = Inl (c, m)
        \<and> c \<in> {429, 500, 503}
      \<longrightarrow> fst (execute_with_retry E req s) = Inl (HttpError c m)
        \<and> requests (snd (execute_with_retry E req s)) = requests s @ replicate (Suc N) req)
   \<and> (1 \<le> max_retries E \<and> remote E (requests s) req = Inl (c', m')
        \<and> c' \<notin> {429, 500, 503}
      \<longrightarrow> execute_with_retry E req s = (Inl (HttpError c' m'), s @ [Call req]))"
proof (intro conjI impI)
  show "\<exists>n. requests (snd (execute_with_retry E req s)) = requests s @ replicate n req
        \<and> int n \<le> max 0 (max_retries E)"
  proof (cases "0 \<le> retry_delay E")
    case True
    from retry_loop_trace[OF True, of 0 req s]
    obtain n where "snd (retry_loop E req 0 s) = s @ retry_trace req (retry_delay E) 0 n"
      "int n \<le> max 0 (max_retries E)" by auto
    then show ?thesis unfolding execute_with_retry_def by (intro exI[of _ n]) simp
  next
    case False
    then have "retry_delay E < 0" by simp
    from retry_loop_short[OF this, of req 0 s] show ?thesis
      unfolding execute_with_retry_def by simp
  qed
next
  assume a: "0 \<le> retry_delay E \<and> int k < max_retries E
        \<and> (\<forall>i<k. \<exists>c m. remote E (requests s @ replicate i req) req = Inl (c, m)
              \<and> c \<in> {429, 500, 503})
        \<and> remote E (requests s @ replicate k req) req = Inr r"
  then have f: "\<forall>i<k. \<exists>c m. remote E (requests s @ replicate i req) req = Inl (c, m)
        \<and> retryable (HttpError c m)" by simp
  have "retry_loop E req 0 s = (Inr (Some r), s @ retry_trace req (retry_delay E) (nat 0) (Suc k))"
    by (rule retry_loop_fail_then_ok[OF _ _ _ f]) (use a in simp_all)
  then show "fst (execute_with_retry E req s) = Inr (Some r)"
    "requests (snd (execute_with_retry E req s)) = requests s @ replicate (Suc k) req"
    unfolding execute_with_retry_def by simp_all
next
  assume a: "0 \<le> retry_delay E \<and> max_retries E = int (Suc N)
        \<and> (\<forall>i<N. \<exists>c m. remote E (requests s @ replicate i req) req = Inl (c, m)
              \<and> c \<in> {429, 500, 503})
        \<and> remote E (requests s @ replicate N req) req = Inl (c, m)
        \<and> c \<in> {429, 500, 503}"
  then have f: "\<forall>i<N. \<exists>c m. remote E (requests s @ replicate i req) req = Inl (c, m)
        \<and> retryable (HttpError c m)" by simp
  have "retry_loop E req 0 s =
      (Inl (HttpError c m), s @ retry_trace req (retry_delay E) (nat 0) (Suc N))"
    by (rule retry_loop_all_fail[OF _ _ _ f]) (use a in simp_all)
  then show "fst (execute_with_retry E req s) = Inl (HttpError c m)"
    "requests (snd (execute_with_retry E req s)) = requests s @ replicate (Suc N) req"
    unfolding execute_with_retry_def by simp_all
next
  assume a: "1 \<le> max_retries E \<and> remote E (requests s) req = Inl (c', m')
        \<and> c' \<notin> {429, 500, 503}"
  then have "0 < max_retries E" "remote E (requests s) req = Inl (c', m')"
    "\<not> retryable (HttpError c' m')" by simp_all
  from retry_loop_fatal[OF this] show "execute_with_retry E req s = (Inl (HttpError c' m'), s @ [Call req])"
    unfolding execute_with_retry_def .
qed


theorem execute_with_retry_attempts_witness:
  "execute_with_retry missing (FilesGet ''f'') [] = (Inl (HttpError 404 ''Not Found''), [Call (FilesGet ''f'')])
   \<and> fst (execute_with_retry flaky (FilesGet ''f'') []) = Inr (Some no_response)
   \<and> requests (snd (execute_with_retry flaky (FilesGet ''f'') [])) = [FilesGet ''f'', FilesGet ''f'', FilesGet ''f'']
   \<and> fst (execute_with_retry down (FilesGet ''f'') []) = Inl (HttpError 500 ''second'')
   \<and> requests (snd (execute_with_retry down (FilesGet ''f'') [])) = [FilesGet ''f'', FilesGet ''f'']"
  using execute_with_retry_attempts[where E = missing and req = "FilesGet ''f''" and s = "[]"
      and c' = 404 and m' = "''Not Found''" and k = 0 and N = 0 and c = 0]
    execute_with_retry_attempts[where E = flaky and req = "FilesGet ''f''" and s = "[]"
      and k = "Suc (Suc 0)" and r = no_response and N = 0 and c = 0 and c' = 429]
    execute_with_retry_attempts[where E = down and req = "FilesGet ''f''" and s = "[]"
      and N = "Suc 0" and c = 500 and m = "''second''" and k = 0 and c' = 500]
  by (simp add: flaky_def down_def missing_def config_def scripted_def less_Suc_eq numeral_3_eq_3)

lemma sorted_backoff:
  "0 < (d::real) \<Longrightarrow> sorted_wrt (<) (map (\<lambda>k. 2 ^ k * d) [a..<b])"
  by (simp add: sorted_wrt_map sorted_wrt_iff_nth_less)

text \<open>
  Claim C4. The trace of a call of \<^verbatim>\<open>_execute_with_retry\<close> is \<open>retry_trace\<close>: attempts
  separated by sleeps, where the sleep before the \<open>k\<close>-th retry lasts
  \<open>2 ^ k * retry_delay\<close> seconds, and the last event is an attempt, so nothing is slept
  after the attempt that exhausts \<^verbatim>\<open>max_retries\<close> nor after an error that is not
  retried. The delays double, and increase strictly when \<^verbatim>\<open>retry_delay\<close> is positive.
\<close>

theorem backoff_delays:
  assumes "0 \<le> retry_delay E"
  shows "\<exists>n. snd (execute_with_retry E req s) = s @ retry_trace req (retry_delay E) 0 n
     \<and> int n \<le> max 0 (max_retries E)
     \<and> sleeps (snd (execute_with_retry E req s))
         = sleeps s @ map (\<lambda>k. 2 ^ k * retry_delay E) [1..<n]
     \<and> (0 < n \<longrightarrow> last (snd (execute_with_retry E req s)) = Call req)
     \<and> (0 < retry_delay E \<longrightarrow>
          sorted_wrt (<) (map (\<lambda>k. 2 ^ k * retry_delay E) [1..<n]))"
proof -
  from retry_loop_trace[OF assms, of 0 req s]
  obtain n where n: "snd (retry_loop E req 0 s) = s @ retry_trace req (retry_delay E) 0 n"
    "int n \<le> max 0 (max_retries E)" by auto
  show ?thesis
  proof (intro exI[of _ n] conjI impI)
    show "snd (execute_with_retry E req s) = s @ retry_trace req (retry_delay E) 0 n"
      using n(1) by (simp add: execute_with_retry_def)
    show "int n \<le> max 0 (max_retries E)" by (rule n(2))
    show "sleeps (snd (execute_with_retry E req s))
         = sleeps s @ map (\<lambda>k. 2 ^ k * retry_delay E) [1..<n]"
      using n(1) by (simp add: execute_with_retry_def sleeps_retry_trace)
    show "last (snd (execute_with_retry E req s)) = Call req" if "0 < n"
      using n(1) that by (simp add: execute_with_retry_def last_retry_trace)
    show "sorted_wrt (<) (map (\<lambda>k. 2 ^ k * retry_delay E) [1..<n])" if "0 < retry_delay E"
      using that by (rule sorted_backoff)
  qed
qed

theorem backoff_delays_witness:
  "0 \<le> retry_delay flaky
   \<and> snd (execute_with_retry flaky (FilesGet ''f'') []) =
       [Call (FilesGet ''f''), Sleep 2, Call (FilesGet ''f''), Sleep 4, Call (FilesGet ''f'')]
   \<and> (\<exists>n. snd (execute_with_retry flaky (FilesGet ''f'') []) = retry_trace (FilesGet ''f'') 1 0 n
        \<and> sleeps (snd (execute_with_retry flaky (FilesGet ''f'') [])) = map (\<lambda>k. 2 ^ k * 1) [1..<n])"
proof -
  have d: "0 \<le> retry_delay flaky" "retry_delay flaky = 1"
    by (simp_all add: flaky_def config_def)
  have "retry_loop flaky (FilesGet ''f'') 0 [] =
    (Inr (Some no_response), [] @ retry_trace (FilesGet ''f'') (retry_delay flaky) (nat 0) (Suc (Suc (Suc 0))))"
    by (rule retry_loop_fail_then_ok)
       (simp_all add: flaky_def config_def scripted_def less_Suc_eq)
  then have t: "snd (execute_with_retry flaky (FilesGet ''f'') []) =
       [Call (FilesGet ''f''), Sleep 2, Call (FilesGet ''f''), Sleep 4, Call (FilesGet ''f'')]"
    by (simp add: execute_with_retry_def d(2) numeral_3_eq_3)
  from backoff_delays[OF d(1), of "FilesGet ''f''" "[]"] d t show ?thesis
    by auto
qed

section \<open>The claim about \<^verbatim>\<open>extract_file_id_from_url\<close>\<close>

lemma first_match_None: "first_match ps s = None \<longleftrightarrow> (\<forall>p \<in> set ps. re_search_id p s = None)"
  by (induction ps) (auto split: option.splits)

lemma re_search_id_Some:
  "re_search_id lit s = Some m \<Longrightarrow>
     m \<noteq> [] \<and> list_all id_char m \<and> (\<exists>a b. s = a @ lit @ m @ b \<and> (b = [] \<or> \<not> id_char (hd b)))"
proof (induction s)
  case Nil
  then show ?case by simp
next
  case (Cons c cs)
  show ?case
  proof (cases "prefix lit (c # cs) \<and> takeWhile id_char (drop (length lit) (c # cs)) \<noteq> []")
    case True
    then obtain t where t: "c # cs = lit @ t" by (auto simp: prefix_def)
    from True Cons.prems have "m = takeWhile id_char (drop (length lit) (c # cs))" "m \<noteq> []"
      by simp_all
    then have m: "m = takeWhile id_char t" "m \<noteq> []" by (simp_all add: t)
    have "t = m @ dropWhile id_char t" by (simp add: m)
    moreover have "dropWhile id_char t = [] \<or> \<not> id_char (hd (dropWhile id_char t))"
      by (metis hd_dropWhile)
    moreover have "list_all id_char m" unfolding m by (simp add: list_all_iff) (meson set_takeWhileD)
    ultimately show ?thesis using t m(2)
      by (intro conjI exI[of _ "[]"] exI[of _ "dropWhile id_char t"]) auto
  next
    case False
    with Cons.prems have "re_search_id lit cs = Some m" by (auto split: if_splits)
    from Cons.IH[OF this] obtain a b where "m \<noteq> []" "list_all id_char m" "cs = a @ lit @ m @ b"
      "b = [] \<or> \<not> id_char (hd b)" by blast
    then show ?thesis by (intro conjI exI[of _ "c # a"] exI[of _ b]) auto
  qed
qed


lemma re_search_id_None:
  "re_search_id lit s = None \<longleftrightarrow> \<not> (\<exists>a c b. s = a @ lit @ c # b \<and> id_char c)"
proof (induction s)
  case Nil
  then show ?case by simp
next
  case (Cons x xs)
  show ?case
  proof (cases "prefix lit (x # xs) \<and> takeWhile id_char (drop (length lit) (x # xs)) \<noteq> []")
    case True
    then obtain t where t: "x # xs = lit @ t" "takeWhile id_char t \<noteq> []"
      by (auto simp: prefix_def)
    then obtain c b where "t = c # b" "id_char c"
      by (cases t) (auto split: if_splits)
    with t(1) have "x # xs = [] @ lit @ c # b \<and> id_char c" by simp
    then have "\<exists>a c b. x # xs = a @ lit @ c # b \<and> id_char c" by blast
    with True show ?thesis by simp
  next
    case False
    have "(\<exists>a c b. x # xs = a @ lit @ c # b \<and> id_char c)
        \<longleftrightarrow> (\<exists>a c b. xs = a @ lit @ c # b \<and> id_char c)"
    proof
      assume "\<exists>a c b. x # xs = a @ lit @ c # b \<and> id_char c"
      then obtain a c b where e: "x # xs = a @ lit @ c # b" "id_char c" by blast
      show "\<exists>a c b. xs = a @ lit @ c # b \<and> id_char c"
      proof (cases a)
        case Nil
        with e have "prefix lit (x # xs)" "drop (length lit) (x # xs) = c # b" by simp_all
        with e(2) False show ?thesis by simp
      next
        case (Cons y ys)
        with e have "xs = ys @ lit @ c # b" by simp
        with e(2) show ?thesis by blast
      qed
    next
      assume "\<exists>a c b. xs = a @ lit @ c # b \<and> id_char c"
      then obtain a c b where "xs = a @ lit @ c # b" "id_char c" by blast
      then have "x # xs = (x # a) @ lit @ c # b \<and> id_char c" by simp
      then show "\<exists>a c b. x # xs = a @ lit @ c # b \<and> id_char c" by blast
    qed
    with False Cons.IH show ?thesis by auto
  qed
qed

text \<open>
  Claim C2 says that the pattern of the generic drive segment is tried before the form
  \<^verbatim>\<open>id=\<close>. The list of the source has them the other way round, and a path that
  holds both shows it.
\<close>

theorem extract_order_counterexample:
  "extract_file_id_from_url (config (scripted []) 3) ''https://host/drive/abc/id=QQQ''
     = Inr (Some ''QQQ'')
   \<and> extract_as_specified (config (scripted []) 3) ''https://host/drive/abc/id=QQQ''
     = Inr (Some ''abc'')"
  by code_simp

text \<open>
  Claim C2, amended. For a URL that \<^verbatim>\<open>urlparse\<close> accepts, the patterns are tried on the
  path in the order of the source: file, folder, the form \<^verbatim>\<open>id=\<close>, generic drive
  segment. The first match is returned, whatever the query string holds; when no pattern
  matches the path, the first \<^verbatim>\<open>id\<close> parameter of the query string is returned, and
  \<^verbatim>\<open>None\<close> when there is none. The result is \<^verbatim>\<open>None\<close> exactly when no pattern occurs in
  the path followed by a character of an identifier and the query has no \<^verbatim>\<open>id\<close>. The
  four examples of the specification hold.
\<close>

theorem extract_file_id_from_url_order:
  "(urlparse E url = Inr u \<longrightarrow>
      extract_file_id_from_url E url = Inr
        (case re_search_id ''/file/d/'' (path u) of Some m \<Rightarrow> Some m | None \<Rightarrow>
        (case re_search_id ''/folders/'' (path u) of Some m \<Rightarrow> Some m | None \<Rightarrow>
        (case re_search_id ''id='' (path u) of Some m \<Rightarrow> Some m | None \<Rightarrow>
        (case re_search_id ''/drive/'' (path u) of Some m \<Rightarrow> Some m | None \<Rightarrow>
           map_of (parse_qsl (query u)) ''id'')))))
   \<and> (urlparse E url = Inr u \<and> first_match patterns (path u) = Some m \<longrightarrow>
        extract_file_id_from_url E url = Inr (Some m))
   \<and> (urlparse E url = Inr u \<longrightarrow>
        (extract_file_id_from_url E url = Inr None \<longleftrightarrow>
           (\<forall>lit \<in> set patterns. \<not> (\<exists>a c b. path u = a @ lit @ c # b \<and> id_char c))
           \<and> map_of (parse_qsl (query u)) ''id'' = None))
   \<and> extract_file_id_from_url E ''https://host/file/d/XYZ/view'' = Inr (Some ''XYZ'')
   \<and> extract_file_id_from_url E ''https://host/drive/folders/ABC'' = Inr (Some ''ABC'')
   \<and> extract_file_id_from_url E ''https://host/open?id=QQQ'' = Inr (Some ''QQQ'')
   \<and> extract_file_id_from_url E ''https://host/nomatch'' = Inr None"
proof (intro conjI impI)
  assume "urlparse E url = Inr u"
  then show "extract_file_id_from_url E url = Inr
        (case re_search_id ''/file/d/'' (path u) of Some m \<Rightarrow> Some m | None \<Rightarrow>
        (case re_search_id ''/folders/'' (path u) of Some m \<Rightarrow> Some m | None \<Rightarrow>
        (case re_search_id ''id='' (path u) of Some m \<Rightarrow> Some m | None \<Rightarrow>
        (case re_search_id ''/drive/'' (path u) of Some m \<Rightarrow> Some m | None \<Rightarrow>
           map_of (parse_qsl (query u)) ''id''))))"
    by (simp add: extract_file_id_from_url_def patterns_def split: option.splits)
next
  assume "urlparse E url = Inr u \<and> first_match patterns (path u) = Some m"
  then show "extract_file_id_from_url E url = Inr (Some m)"
    by (simp add: extract_file_id_from_url_def)
next
  assume u: "urlparse E url = Inr u"
  have "extract_file_id_from_url E url = Inr None \<longleftrightarrow>
      first_match patterns (path u) = None \<and> map_of (parse_qsl (query u)) ''id'' = None"
    using u by (auto simp: extract_file_id_from_url_def split: option.splits)
  then show "extract_file_id_from_url E url = Inr None \<longleftrightarrow>
           (\<forall>lit \<in> set patterns. \<not> (\<exists>a c b. path u = a @ lit @ c # b \<and> id_char c))
           \<and> map_of (parse_qsl (query u)) ''id'' = None"
    by (simp only: first_match_None re_search_id_None)
next
  show "extract_file_id_from_url E ''https://host/file/d/XYZ/view'' = Inr (Some ''XYZ'')"
    by code_simp
  show "extract_file_id_from_url E ''https://host/drive/folders/ABC'' = Inr (Some ''ABC'')"
    by code_simp
  show "extract_file_id_from_url E ''https://host/open?id=QQQ'' = Inr (Some ''QQQ'')"
    by code_simp
  show "extract_file_id_from_url E ''https://host/nomatch'' = Inr None"
    by code_simp
qed

theorem extract_file_id_from_url_order_witness:
  "urlparse (config (scripted []) 3) ''https://host/drive/abc/id=QQQ?id=ZZZ''
     = Inr \<lparr>scheme = ''https'', netloc = ''host'', path = ''/drive/abc/id=QQQ'', params = [],
            query = ''id=ZZZ'', fragment = []\<rparr>
   \<and> first_match patterns ''/drive/abc/id=QQQ'' = Some ''QQQ''
   \<and> extract_file_id_from_url (config (scripted []) 3) ''https://host/drive/abc/id=QQQ?id=ZZZ''
     = Inr (Some ''QQQ'')
   \<and> extract_file_id_from_url (config (scripted []) 3) ''https://host/nomatch'' = Inr None
   \<and> \<not> (\<exists>lit a c b. lit \<in> set patterns \<and> ''/nomatch'' = a @ lit @ c # b \<and> id_char c)"
proof -
  let ?E = "config (scripted []) 3"
  let ?u = "\<lparr>scheme = ''https'', netloc = ''host'', path = ''/drive/abc/id=QQQ'', params = [],
            query = ''id=ZZZ'', fragment = []\<rparr>"
  let ?v = "\<lparr>scheme = ''https'', netloc = ''host'', path = ''/nomatch'', params = [],
            query = [], fragment = []\<rparr>"
  have u: "urlparse ?E ''https://host/drive/abc/id=QQQ?id=ZZZ'' = Inr ?u" by code_simp
  have m: "first_match patterns (path ?u) = Some ''QQQ''" by code_simp
  have v: "urlparse ?E ''https://host/nomatch'' = Inr ?v" by code_simp
  note t1 = extract_file_id_from_url_order[of ?E "''https://host/drive/abc/id=QQQ?id=ZZZ''" ?u "''QQQ''"]
  note t2 = extract_file_id_from_url_order[of ?E "''https://host/nomatch''" ?v "''QQQ''"]
  from t1 u m have a: "extract_file_id_from_url ?E ''https://host/drive/abc/id=QQQ?id=ZZZ''
      = Inr (Some ''QQQ'')" by blast
  from t2 have b: "extract_file_id_from_url ?E ''https://host/nomatch'' = Inr None" by blast
  from t2 v b have "\<forall>lit \<in> set patterns. \<not> (\<exists>a c b. path ?v = a @ lit @ c # b \<and> id_char c)"
    by blast
  then have c: "\<not> (\<exists>lit a c b. lit \<in> set patterns \<and> ''/nomatch'' = a @ lit @ c # b \<and> id_char c)"
    by simp
  have m': "first_match patterns ''/drive/abc/id=QQQ'' = Some ''QQQ''" using m by simp
  from u m' a b c show ?thesis by blast
qed

section \<open>The claims about \<^verbatim>\<open>pattern_matches\<close>\<close>












section \<open>The claim about \<^verbatim>\<open>list_folder_contents\<close>\<close>

lemma execute_with_retry_ok:
  "0 < max_retries E \<Longrightarrow> remote E (requests s) req = Inr r \<Longrightarrow>
   execute_with_retry E req s = (Inr (Some r), s @ [Call req])"
  by (simp add: execute_with_retry_def retry_loop_ok)

lemma execute_with_retry_fatal:
  "0 < max_retries E \<Longrightarrow> remote E (requests s) req = Inl (c, m) \<Longrightarrow>
   \<not> retryable (HttpError c m) \<Longrightarrow>
   execute_with_retry E req s = (Inl (HttpError c m), s @ [Call req])"
  by (simp add: execute_with_retry_def retry_loop_fatal)

lemma list_pages_last:
  assumes "0 < max_retries E"
    "remote E (requests s) (FilesList (in_parents fid) (Some (batch_size E)) tok) = Inr r"
    "\<not> truthy (r_nextPageToken r)"
  shows "list_pages E fid acc tok s =
    Some (Inr (acc @ (case r_files r of None \<Rightarrow> [] | Some fs \<Rightarrow> fs)),
          s @ [Call (FilesList (in_parents fid) (Some (batch_size E)) tok)])"
  using assms(3)
  by (subst list_pages.simps) (simp add: execute_with_retry_ok[OF assms(1,2)] get_key_def)

lemma list_pages_more:
  assumes "0 < max_retries E"
    "remote E (requests s) (FilesList (in_parents fid) (Some (batch_size E)) tok) = Inr r"
    "truthy (r_nextPageToken r)"
  shows "list_pages E fid acc tok s =
    list_pages E fid (acc @ (case r_files r of None \<Rightarrow> [] | Some fs \<Rightarrow> fs)) (r_nextPageToken r)
      (s @ [Call (FilesList (in_parents fid) (Some (batch_size E)) tok)])"
  using assms(3)
  by (subst list_pages.simps) (simp add: execute_with_retry_ok[OF assms(1,2)] get_key_def)

lemma pages_step:
  assumes "0 < b" "b < x"
  shows "(x - 1) div b = Suc ((x - b - 1) div (b::nat))"
proof -
  define y where "y = x - b - 1"
  then have x: "x = y + b + 1" using assms(2) by simp
  show ?thesis unfolding x using assms(1) by simp
qed

lemma list_pages_paged:
  assumes "remote E = paged_store items" "0 < batch_size E" "0 < max_retries E"
  shows "off = (case tok of None \<Rightarrow> 0 | Some t \<Rightarrow> length t) \<Longrightarrow>
    \<exists>toks. list_pages E fid acc tok s =
        Some (Inr (acc @ drop off items),
              s @ map (\<lambda>t. Call (FilesList (in_parents fid) (Some (batch_size E)) t)) (tok # toks))
      \<and> Suc (length toks) = Suc ((length items - off - 1) div nat (batch_size E))"
proof (induction "length items - off" arbitrary: off tok acc s rule: less_induct)
  case less
  let ?b = "nat (batch_size E)"
  let ?req = "FilesList (in_parents fid) (Some (batch_size E)) tok"
  let ?page = "take ?b (drop off items)"
  let ?next = "if off + ?b < length items then Some (replicate (off + ?b) (CHR ''t'')) else None"
  have b: "0 < ?b" using assms(2) by simp
  have r: "remote E (requests s) ?req =
      Inr (no_response\<lparr>r_files := Some ?page, r_nextPageToken := ?next\<rparr>)"
    using less.prems by (simp add: assms(1) paged_store_def Let_def)
  show ?case
  proof (cases "off + ?b < length items")
    case True
    let ?tok = "Some (replicate (off + ?b) (CHR ''t''))"
    have step: "list_pages E fid acc tok s = list_pages E fid (acc @ ?page) ?tok (s @ [Call ?req])"
      using list_pages_more[OF assms(3) r] True b by simp
    have lt: "length items - (off + ?b) < length items - off" using True b by simp
    have eq: "off + ?b = (case ?tok of None \<Rightarrow> 0 | Some t \<Rightarrow> length t)" by simp
    from less.hyps[OF lt eq, of "acc @ ?page" "s @ [Call ?req]"]
    obtain toks where toks:
      "list_pages E fid (acc @ ?page) ?tok (s @ [Call ?req]) =
        Some (Inr ((acc @ ?page) @ drop (off + ?b) items),
              (s @ [Call ?req]) @ map (\<lambda>t. Call (FilesList (in_parents fid) (Some (batch_size E)) t)) (?tok # toks))"
      "Suc (length toks) = Suc ((length items - (off + ?b) - 1) div ?b)"
      by (elim exE conjE)
    have "drop (off + ?b) items = drop ?b (drop off items)" by (simp add: add.commute)
    then have "?page @ drop (off + ?b) items = drop off items"
      by (simp only: append_take_drop_id)
    then have res: "(acc @ ?page) @ drop (off + ?b) items = acc @ drop off items" by simp
    have "?b < length items - off" using True by simp
    from pages_step[OF b this]
    have "(length items - off - 1) div ?b = Suc ((length items - (off + ?b) - 1) div ?b)"
      by (simp only: diff_diff_left)
    with toks(2) have cnt: "Suc (length (?tok # toks)) = Suc ((length items - off - 1) div ?b)"
      by (simp only: list.size length_Cons)
    have "list_pages E fid acc tok s =
        Some (Inr (acc @ drop off items),
              s @ map (\<lambda>t. Call (FilesList (in_parents fid) (Some (batch_size E)) t)) (tok # ?tok # toks))"
      unfolding step toks(1) res by simp
    with cnt show ?thesis by blast
  next
    case False
    have last: "list_pages E fid acc tok s = Some (Inr (acc @ ?page), s @ [Call ?req])"
      using list_pages_last[OF assms(3) r] False by simp
    have "?page = drop off items" using False by simp
    moreover have "(length items - off - 1) div ?b = 0" using False b by simp
    ultimately show ?thesis by (intro exI[of _ "[]"]) (simp add: last)
  qed
qed

text \<open>
  Claim C7. \<^verbatim>\<open>list_folder_contents\<close> issues the list request again and again, each time
  with the token of the page before, and appends the items of every page to those of the
  pages before it, until a page comes without a token. Against a store that pages a folder
  of \<open>n\<close> items by \<^verbatim>\<open>batch_size\<close> it returns exactly these items in their order, after
  \<open>(n - 1) div batch_size + 1\<close> list requests and nothing else: three requests for 250
  items and a batch size of 100. When the store answers with no items and no token, the
  result is the empty list after one request. At least one attempt is configured
  (\<^verbatim>\<open>max_retries \<ge> 1\<close>).
\<close>

theorem list_folder_contents_pages:
  "(remote E = paged_store items \<and> 0 < batch_size E \<and> 0 < max_retries E \<longrightarrow>
      (\<exists>toks. list_folder_contents E folder_id s =
          Some (Inr items,
                s @ map (\<lambda>t. Call (FilesList (in_parents folder_id) (Some (batch_size E)) t)) toks)
        \<and> length toks = Suc ((length items - 1) div nat (batch_size E))))
   \<and> (remote E = paged_store items \<and> length items = 250 \<and> batch_size E = 100
        \<and> 0 < max_retries E \<longrightarrow>
      (\<exists>toks. list_folder_contents E folder_id s =
          Some (Inr items, s @ map (\<lambda>t. Call (FilesList (in_parents folder_id) (Some 100) t)) toks)
        \<and> length toks = 3))
   \<and> (0 < max_retries E
        \<and> remote E (requests s) (FilesList (in_parents folder_id) (Some (batch_size E)) None) = Inr r
        \<and> (r_files r = None \<or> r_files r = Some []) \<and> r_nextPageToken r = None \<longrightarrow>
      list_folder_contents E folder_id s =
        Some (Inr [], s @ [Call (FilesList (in_parents folder_id) (Some (batch_size E)) None)]))
   \<and> (0 < max_retries E
        \<and> remote E (requests s) (FilesList (in_parents folder_id) (Some (batch_size E)) tok) = Inr r
        \<and> truthy (r_nextPageToken r) \<longrightarrow>
      list_pages E folder_id acc tok s =
        list_pages E folder_id (acc @ (case r_files r of None \<Rightarrow> [] | Some fs \<Rightarrow> fs))
          (r_nextPageToken r)
          (s @ [Call (FilesList (in_parents folder_id) (Some (batch_size E)) tok)]))"
proof (intro conjI impI)
  assume a: "remote E = paged_store items \<and> 0 < batch_size E \<and> 0 < max_retries E"
  then have "\<exists>toks. list_pages E folder_id [] None s =
        Some (Inr ([] @ drop 0 items),
              s @ map (\<lambda>t. Call (FilesList (in_parents folder_id) (Some (batch_size E)) t)) (None # toks))
      \<and> Suc (length toks) = Suc ((length items - 0 - 1) div nat (batch_size E))"
    by (intro list_pages_paged) simp_all
  then obtain toks where "list_pages E folder_id [] None s =
        Some (Inr items,
              s @ map (\<lambda>t. Call (FilesList (in_parents folder_id) (Some (batch_size E)) t)) (None # toks))"
      "length (None # toks) = Suc ((length items - 1) div nat (batch_size E))"
    by auto
  then show "\<exists>toks. list_folder_contents E folder_id s =
          Some (Inr items,
                s @ map (\<lambda>t. Call (FilesList (in_parents folder_id) (Some (batch_size E)) t)) toks)
        \<and> length toks = Suc ((length items - 1) div nat (batch_size E))"
    unfolding list_folder_contents_def by blast
next
  assume a: "remote E = paged_store items \<and> length items = 250 \<and> batch_size E = 100
        \<and> 0 < max_retries E"
  then have "\<exists>toks. list_pages E folder_id [] None s =
        Some (Inr ([] @ drop 0 items),
              s @ map (\<lambda>t. Call (FilesList (in_parents folder_id) (Some (batch_size E)) t)) (None # toks))
      \<and> Suc (length toks) = Suc ((length items - 0 - 1) div nat (batch_size E))"
    by (intro list_pages_paged) simp_all
  then obtain toks where "list_pages E folder_id [] None s =
        Some (Inr items,
              s @ map (\<lambda>t. Call (FilesList (in_parents folder_id) (Some 100) t)) (None # toks))"
      "length (None # toks) = 3"
    using a by auto
  then show "\<exists>toks. list_folder_contents E folder_id s =
          Some (Inr items, s @ map (\<lambda>t. Call (FilesList (in_parents folder_id) (Some 100) t)) toks)
        \<and> length toks = 3"
    unfolding list_folder_contents_def by blast
next
  assume a: "0 < max_retries E
        \<and> remote E (requests s) (FilesList (in_parents folder_id) (Some (batch_size E)) None) = Inr r
        \<and> (r_files r = None \<or> r_files r = Some []) \<and> r_nextPageToken r = None"
  then have "list_pages E folder_id [] None s =
    Some (Inr ([] @ (case r_files r of None \<Rightarrow> [] | Some fs \<Rightarrow> fs)),
          s @ [Call (FilesList (in_parents folder_id) (Some (batch_size E)) None)])"
    by (intro list_pages_last) simp_all
  with a show "list_folder_contents E folder_id s =
        Some (Inr [], s @ [Call (FilesList (in_parents folder_id) (Some (batch_size E)) None)])"
    unfolding list_folder_contents_def by auto
next
  assume "0 < max_retries E
        \<and> remote E (requests s) (FilesList (in_parents folder_id) (Some (batch_size E)) tok) = Inr r
        \<and> truthy (r_nextPageToken r)"
  then show "list_pages E folder_id acc tok s =
        list_pages E folder_id (acc @ (case r_files r of None \<Rightarrow> [] | Some fs \<Rightarrow> fs))
          (r_nextPageToken r)
          (s @ [Call (FilesList (in_parents folder_id) (Some (batch_size E)) tok)])"
    by (intro list_pages_more) simp_all
qed


lemma length_big_folder: "length big_folder = 250"
  by (simp only: big_folder_def length_replicate)

theorem list_folder_contents_pages_witness:
  "remote (config (paged_store big_folder) 3) = paged_store big_folder
   \<and> length big_folder = 250
   \<and> batch_size (config (paged_store big_folder) 3) = 100
   \<and> 0 < max_retries (config (paged_store big_folder) 3)
   \<and> (\<exists>toks. list_folder_contents (config (paged_store big_folder) 3) ''F'' [] =
          Some (Inr big_folder,
                [] @ map (\<lambda>t. Call (FilesList (in_parents ''F'') (Some 100) t)) toks)
        \<and> length toks = 3)
   \<and> list_folder_contents (config (paged_store []) 3) ''F'' [] =
        Some (Inr [], [Call (FilesList (in_parents ''F'') (Some 100) None)])"
proof -
  let ?E = "config (paged_store big_folder) 3"
  let ?Z = "config (paged_store []) 3"
  let ?r = "no_response\<lparr>r_files := Some [], r_nextPageToken := None\<rparr>"
  have h: "remote ?E = paged_store big_folder"
    "batch_size ?E = 100" "0 < max_retries ?E"
    by (simp_all add: config_def)
  note t = list_folder_contents_pages[where E = ?E and items = big_folder
      and folder_id = "''F''" and s = "[]", THEN conjunct2, THEN conjunct1, rule_format]
  have a: "\<exists>toks. list_folder_contents ?E ''F'' [] =
          Some (Inr big_folder,
                [] @ map (\<lambda>t. Call (FilesList (in_parents ''F'') (Some 100) t)) toks)
        \<and> length toks = 3"
    by (rule t) (intro conjI h length_big_folder)
  have hz: "0 < max_retries ?Z" "batch_size ?Z = 100"
    "remote ?Z (requests []) (FilesList (in_parents ''F'') (Some (batch_size ?Z)) None) = Inr ?r"
    "r_files ?r = None \<or> r_files ?r = Some []" "r_nextPageToken ?r = None"
    by (simp_all add: config_def paged_store_def)
  note tz = list_folder_contents_pages[where E = ?Z and folder_id = "''F''" and s = "[]"
      and r = ?r, THEN conjunct2, THEN conjunct2, THEN conjunct1, rule_format]
  have "list_folder_contents ?Z ''F'' [] =
        Some (Inr [], [] @ [Call (FilesList (in_parents ''F'') (Some (batch_size ?Z)) None)])"
    by (rule tz) (intro conjI hz(1,3,4,5))
  then have b: "list_folder_contents ?Z ''F'' [] =
        Some (Inr [], [Call (FilesList (in_parents ''F'') (Some 100) None)])"
    by (simp only: hz(2) append_Nil)
  show ?thesis by (intro conjI h length_big_folder a b)
qed

section \<open>The claim about \<^verbatim>\<open>_copy_folder\<close>\<close>

lemma copy_items_abort:
  "copy_items n E xs new_folder_id s = Some (Inr (), s1) \<Longrightarrow>
   copy_drive_item n E (f_id y) (Some new_folder_id) None s1 = Some (Inl e, s2) \<Longrightarrow>
   copy_items n E (xs @ y # ys) new_folder_id s = Some (Inl e, s2)"
proof (induction xs arbitrary: s)
  case Nil
  then show ?case by simp
next
  case (Cons x xs)
  from Cons.prems(1) obtain c s' where
    x: "copy_drive_item n E (f_id x) (Some new_folder_id) None s = Some (Inr c, s')"
    and xs: "copy_items n E xs new_folder_id s' = Some (Inr (), s1)"
    by (auto split: option.splits sum.splits)
  from Cons.IH[OF xs Cons.prems(2)] x show ?case by simp
qed

declare copy_folder.simps [simp del]

lemma copy_folder_abort:
  assumes "get_file_metadata E folder_id s = (Inr (Some md), s1)" "r_name md = Some nm"
    "execute_with_retry E
       (FilesCreate (if truthy new_name then the new_name else nm) (if_truthy parent_id)) s1
     = (Inr (Some cr), s2)"
    "r_id cr = Some new_folder_id"
    "list_folder_contents E folder_id s2 = Some (Inr items, s3)"
    "copy_items n E items new_folder_id s3 = Some (Inl e, s4)"
  shows "copy_folder n E folder_id parent_id new_name s = Some (Inl e, s4)"
  using assms by (cases "truthy new_name") (simp_all add: copy_folder.simps subscript_def)

lemma copy_drive_item_abort:
  assumes "get_file_metadata E item_id s = (Inr (Some md), s1)" "r_mimeType md = Some folder_mime"
    "copy_folder n E item_id dest new_name s1 = Some (Inl e, s4)"
  shows "copy_drive_item (Suc n) E item_id dest new_name s = Some (Inl e, s4)"
  using assms(1,2) by (simp add: subscript_def assms(3))


text \<open>
  Claim C8. \<^verbatim>\<open>_copy_folder\<close> has no handler around the copy of a child. When the copy of
  a child fails after the children before it were copied, the loop over the children ends
  with that error and the children after it are not touched; \<^verbatim>\<open>_copy_folder\<close> ends with
  the same error in place of the identifier of the new folder, and so does
  \<^verbatim>\<open>copy_drive_item\<close> on a folder. The loop of \<^verbatim>\<open>copy_to_subfolders\<close> is different: when a
  copy fails there, it goes on with the subfolders that remain.
\<close>

theorem copy_folder_aborts_on_child_failure:
  "(copy_items n E xs new_folder_id s = Some (Inr (), s1)
      \<and> copy_drive_item n E (f_id y) (Some new_folder_id) None s1 = Some (Inl e, s2) \<longrightarrow>
    copy_items n E (xs @ y # ys) new_folder_id s = Some (Inl e, s2))
   \<and> (get_file_metadata E folder_id s = (Inr (Some md), s1) \<and> r_name md = Some nm
      \<and> execute_with_retry E
           (FilesCreate (if truthy new_name then the new_name else nm) (if_truthy parent_id)) s1
          = (Inr (Some cr), s2)
      \<and> r_id cr = Some new_folder_id
      \<and> list_folder_contents E folder_id s2 = Some (Inr items, s3)
      \<and> copy_items n E items new_folder_id s3 = Some (Inl e, s4) \<longrightarrow>
    copy_folder n E folder_id parent_id new_name s = Some (Inl e, s4))
   \<and> (get_file_metadata E item_id s = (Inr (Some md), s1)
      \<and> r_mimeType md = Some folder_mime
      \<and> copy_folder n E item_id dest new_name s1 = Some (Inl e, s4) \<longrightarrow>
    copy_drive_item (Suc n) E item_id dest new_name s = Some (Inl e, s4))
   \<and> (copy_drive_item n E source_file_id (Some (f_id folder)) None s = Some (Inl e, s1) \<longrightarrow>
    copy_to_each n E source_file_id (folder # subfolders) copied_files s =
      copy_to_each n E source_file_id subfolders copied_files s1)"
proof (intro conjI impI)
  assume "copy_items n E xs new_folder_id s = Some (Inr (), s1)
      \<and> copy_drive_item n E (f_id y) (Some new_folder_id) None s1 = Some (Inl e, s2)"
  then show "copy_items n E (xs @ y # ys) new_folder_id s = Some (Inl e, s2)"
    by (simp add: copy_items_abort)
next
  assume "get_file_metadata E folder_id s = (Inr (Some md), s1) \<and> r_name md = Some nm
      \<and> execute_with_retry E
           (FilesCreate (if truthy new_name then the new_name else nm) (if_truthy parent_id)) s1
          = (Inr (Some cr), s2)
      \<and> r_id cr = Some new_folder_id
      \<and> list_folder_contents E folder_id s2 = Some (Inr items, s3)
      \<and> copy_items n E items new_folder_id s3 = Some (Inl e, s4)"
  then show "copy_folder n E folder_id parent_id new_name s = Some (Inl e, s4)"
    by (intro copy_folder_abort[where md = md and nm = nm and cr = cr and items = items
          and new_folder_id = new_folder_id and ?s1.0 = s1 and ?s2.0 = s2 and ?s3.0 = s3])
       simp_all
next
  assume "get_file_metadata E item_id s = (Inr (Some md), s1)
      \<and> r_mimeType md = Some folder_mime
      \<and> copy_folder n E item_id dest new_name s1 = Some (Inl e, s4)"
  then show "copy_drive_item (Suc n) E item_id dest new_name s = Some (Inl e, s4)"
    by (intro copy_drive_item_abort[where md = md and ?s1.0 = s1]) simp_all
next
  assume "copy_drive_item n E source_file_id (Some (f_id folder)) None s = Some (Inl e, s1)"
  then show "copy_to_each n E source_file_id (folder # subfolders) copied_files s =
      copy_to_each n E source_file_id subfolders copied_files s1"
    by simp
qed

theorem copy_folder_aborts_on_child_failure_witness:
  "copy_items 1 (config (drive [''b'']) 3) [hd folder_listing] ''G''
       [Call (FilesGet ''F'')] =
     Some (Inr (), [Call (FilesGet ''F''), Call (FilesGet ''a''),
                    Call (FilesCopy ''a'' (Some ''G'') None)])
   \<and> copy_drive_item 1 (config (drive [''b'']) 3) ''b'' (Some ''G'') None
       [Call (FilesGet ''F''), Call (FilesGet ''a''), Call (FilesCopy ''a'' (Some ''G'') None)] =
     Some (Inl (HttpError 403 ''Forbidden''),
           [Call (FilesGet ''F''), Call (FilesGet ''a''),
            Call (FilesCopy ''a'' (Some ''G'') None), Call (FilesGet ''b'')])
   \<and> copy_items 1 (config (drive [''b'']) 3) ([hd folder_listing] @ last folder_listing # folder_listing)
       ''G'' [Call (FilesGet ''F'')] =
     Some (Inl (HttpError 403 ''Forbidden''),
           [Call (FilesGet ''F''), Call (FilesGet ''a''),
            Call (FilesCopy ''a'' (Some ''G'') None), Call (FilesGet ''b'')])
   \<and> copy_drive_item 2 (config (drive [''a'']) 3) ''F'' None None [] =
     Some (Inl (HttpError 403 ''Forbidden''),
           [Call (FilesGet ''F''), Call (FilesGet ''F''), Call (FilesCreate ''docs'' None),
            Call (FilesList (in_parents ''F'') (Some 100) None), Call (FilesGet ''a'')])
   \<and> copy_drive_item 2 (config (drive []) 3) ''F'' None None [] =
     Some (Inr ''G'',
           [Call (FilesGet ''F''), Call (FilesGet ''F''), Call (FilesCreate ''docs'' None),
            Call (FilesList (in_parents ''F'') (Some 100) None), Call (FilesGet ''a''),
            Call (FilesCopy ''a'' (Some ''G'') None), Call (FilesGet ''b''),
            Call (FilesCopy ''b'' (Some ''G'') None)])"
proof -
  let ?A = "config (drive [''b'']) 3"
  let ?s = "[Call (FilesGet ''F'')]"
  let ?t = "[Call (FilesGet ''F''), Call (FilesGet ''a''), Call (FilesCopy ''a'' (Some ''G'') None)]"
  let ?u = "[Call (FilesGet ''F''), Call (FilesGet ''a''),
            Call (FilesCopy ''a'' (Some ''G'') None), Call (FilesGet ''b'')]"
  have a: "copy_items 1 ?A [hd folder_listing] ''G'' ?s = Some (Inr (), ?t)" by code_simp
  have b: "copy_drive_item 1 ?A ''b'' (Some ''G'') None ?t = Some (Inl (HttpError 403 ''Forbidden''), ?u)"
    by code_simp
  have y: "f_id (last folder_listing) = ''b''" by code_simp
  note t = copy_folder_aborts_on_child_failure[where n = 1 and E = ?A and xs = "[hd folder_listing]"
      and new_folder_id = "''G''" and s = ?s and ?s1.0 = ?t and y = "last folder_listing"
      and e = "HttpError 403 ''Forbidden''" and ?s2.0 = ?u and ys = folder_listing,
      THEN conjunct1, rule_format]
  have c: "copy_items 1 ?A ([hd folder_listing] @ last folder_listing # folder_listing) ''G'' ?s =
     Some (Inl (HttpError 403 ''Forbidden''), ?u)"
    by (rule t) (simp only: a b y)
  let ?B = "config (drive [''a'']) 3"
  let ?md = "no_response\<lparr>r_id := Some ''F'', r_name := Some ''docs'', r_mimeType := Some folder_mime\<rparr>"
  let ?cr = "no_response\<lparr>r_id := Some ''G'', r_name := Some ''docs''\<rparr>"
  let ?p = "[Call (FilesGet ''F'')]"
  let ?q = "[Call (FilesGet ''F''), Call (FilesGet ''F'')]"
  let ?r = "[Call (FilesGet ''F''), Call (FilesGet ''F''), Call (FilesCreate ''docs'' None)]"
  let ?v = "[Call (FilesGet ''F''), Call (FilesGet ''F''), Call (FilesCreate ''docs'' None),
            Call (FilesList (in_parents ''F'') (Some 100) None)]"
  let ?w = "[Call (FilesGet ''F''), Call (FilesGet ''F''), Call (FilesCreate ''docs'' None),
            Call (FilesList (in_parents ''F'') (Some 100) None), Call (FilesGet ''a'')]"
  have h1: "get_file_metadata ?B ''F'' [] = (Inr (Some ?md), ?p)" by code_simp
  have h2: "r_mimeType ?md = Some folder_mime" by code_simp
  have h3: "get_file_metadata ?B ''F'' ?p = (Inr (Some ?md), ?q)" by code_simp
  have h4: "r_name ?md = Some ''docs''" by code_simp
  have h5: "execute_with_retry ?B
      (FilesCreate (if truthy None then the None else ''docs'') (if_truthy None)) ?q
      = (Inr (Some ?cr), ?r)" by code_simp
  have h6: "r_id ?cr = Some ''G''" by code_simp
  have h7: "list_folder_contents ?B ''F'' ?r = Some (Inr folder_listing, ?v)" by code_simp
  have h8: "copy_items 1 ?B folder_listing ''G'' ?v = Some (Inl (HttpError 403 ''Forbidden''), ?w)"
    by code_simp
  note t2 = copy_folder_aborts_on_child_failure[where n = 1 and E = ?B and folder_id = "''F''"
      and s = ?p and md = ?md and ?s1.0 = ?q and nm = "''docs''" and new_name = None
      and parent_id = None and cr = ?cr and ?s2.0 = ?r and new_folder_id = "''G''"
      and items = folder_listing and ?s3.0 = ?v and e = "HttpError 403 ''Forbidden''"
      and ?s4.0 = ?w, THEN conjunct2, THEN conjunct1, rule_format]
  have f: "copy_folder 1 ?B ''F'' None None ?p = Some (Inl (HttpError 403 ''Forbidden''), ?w)"
    by (rule t2) (intro conjI h3 h4 h5 h6 h7 h8)
  note t3 = copy_folder_aborts_on_child_failure[where n = 1 and E = ?B and item_id = "''F''"
      and s = "[]" and md = ?md and ?s1.0 = ?p and dest = None and new_name = None
      and e = "HttpError 403 ''Forbidden''" and ?s4.0 = ?w,
      THEN conjunct2, THEN conjunct2, THEN conjunct1, rule_format]
  have "copy_drive_item (Suc 1) ?B ''F'' None None [] = Some (Inl (HttpError 403 ''Forbidden''), ?w)"
    by (rule t3) (intro conjI h1 h2 f)
  then have d: "copy_drive_item 2 ?B ''F'' None None [] = Some (Inl (HttpError 403 ''Forbidden''), ?w)"
    by (simp only: Suc_1)
  have e: "copy_drive_item 2 (config (drive []) 3) ''F'' None None [] =
     Some (Inr ''G'',
           [Call (FilesGet ''F''), Call (FilesGet ''F''), Call (FilesCreate ''docs'' None),
            Call (FilesList (in_parents ''F'') (Some 100) None), Call (FilesGet ''a''),
            Call (FilesCopy ''a'' (Some ''G'') None), Call (FilesGet ''b''),
            Call (FilesCopy ''b'' (Some ''G'') None)])"
    by code_simp
  show ?thesis by (intro conjI a b c d e)
qed

section \<open>The claim about \<^verbatim>\<open>batch_rename\<close>\<close>












end
